theory Spec2Isabelle
  imports Complex_Main
begin

section \<open>Data model\<close>

text \<open>
  Characters are modelled by \<^typ>\<open>char\<close>, so that the inputs covered are the texts whose
  characters have codes below 256; the empty string that \<open>charAt\<close> yields past the end of
  the input is \<^term>\<open>None\<close>. Only the string-backed variant of \<open>CharStream\<close> is modelled
  (\<open>stringPeek\<close>), which is the one the program constructs.
\<close>

datatype ttype = Str | Num | Id | Kw | Op | Punc

text \<open>
  A token value is a JavaScript string or a JavaScript number. The number held by a
  \<open>num\<close> token is the exact decimal value of the digits read; the rounding of
  \<open>parseFloat\<close> to the nearest double is not modelled.
\<close>

datatype tvalue = SV string | NV rat

datatype token = Token (tok_type: ttype) (tok_value: tvalue)

text \<open>
  The text of an \<open>IllegalSyntaxError\<close> is \<open>"at (" + line + ":" + col + "): " + message\<close>;
  the three parts are kept apart. Where the source appends \<open>JSON.stringify\<close> of a token or of the
  operator list to a fixed prefix, the message keeps the rendered data instead of its rendering.
\<close>

datatype message =
    Text string
  | UnexpectedToken "token option"
  | ExpectedOperators "string list"

text \<open>
  \<open>TypeError\<close> is the built-in exception JavaScript raises when a property of \<open>null\<close>
  is read.
\<close>

datatype error = IllegalSyntaxError nat nat message | TypeError

datatype ('a, 's) result = Return 'a 's | Throw error

section \<open>CharStream\<close>

record CharStream =
  input :: string
  pos :: nat
  line :: nat
  col :: nat

definition new_CharStream :: "string \<Rightarrow> CharStream" where
  "new_CharStream s = \<lparr>input = s, pos = 0, line = 1, col = 0\<rparr>"

definition stringPeek :: "CharStream \<Rightarrow> char option" where
  "stringPeek stream =
     (if pos stream < length (input stream) then Some (input stream ! pos stream) else None)"

definition CharStream_next :: "CharStream \<Rightarrow> char option \<times> CharStream" where
  "CharStream_next stream =
     (let ch = stringPeek stream;
          stream1 = stream\<lparr>pos := pos stream + 1\<rparr>
      in if ch = Some (CHR 0x0A)
         then (ch, stream1\<lparr>line := line stream1 + 1, col := 0\<rparr>)
         else (ch, stream1\<lparr>col := col stream1 + 1\<rparr>))"

definition CharStream_eof :: "CharStream \<Rightarrow> bool" where
  "CharStream_eof stream = (stringPeek stream = None)"

definition CharStream_die :: "CharStream \<Rightarrow> message \<Rightarrow> error" where
  "CharStream_die stream msg = IllegalSyntaxError (line stream) (col stream) msg"

section \<open>Matchers\<close>

definition isWhiteSpace :: "char \<Rightarrow> bool" where
  "isWhiteSpace ch = (ch \<in> set [CHR '' '', CHR 0x09, CHR 0x0A])"

definition isComment :: "char \<Rightarrow> bool" where
  "isComment ch = (ch = CHR ''#'')"

definition isNotEOL :: "char \<Rightarrow> bool" where
  "isNotEOL ch = (ch \<noteq> CHR 0x0A)"

definition isStringBoundary :: "char \<Rightarrow> bool" where
  "isStringBoundary ch = (ch = CHR 0x22)"

definition isDigit :: "char \<Rightarrow> bool" where
  "isDigit ch = (ch \<in> set ''0123456789'')"

definition isStartOfIdentifier :: "char \<Rightarrow> bool" where
  "isStartOfIdentifier ch =
     (ch \<in> set ''abcdefghijklmnopqrstuvwxyzABCDEFGHIJKLMNOPQRSTUVWXYZ_'')"

definition isIdentifier :: "char \<Rightarrow> bool" where
  "isIdentifier ch = (isStartOfIdentifier ch \<or> ch \<in> set ''0123456789-?!'')"

definition isPunctuation :: "char \<Rightarrow> bool" where
  "isPunctuation ch = (ch \<in> set '',:;(){}[]'')"

definition isOperator :: "char \<Rightarrow> bool" where
  "isOperator ch = (ch \<in> set ''+-*/%=&|<>!~^'')"

definition Keywords :: "string list" where
  "Keywords = [''rule'', ''conform'', ''true'', ''false'']"

definition isKeyword :: "string \<Rightarrow> bool" where
  "isKeyword identifier = (identifier \<in> set Keywords)"

section \<open>Values\<close>

text \<open>
  \<open>readWhile\<close> appends to \<open>str\<close> while the stream is not at its end and the predicate
  accepts the character under the cursor. The accumulator starts empty at every call site.
\<close>

function readWhile :: "(char \<Rightarrow> bool) \<Rightarrow> string \<Rightarrow> CharStream \<Rightarrow> string \<times> CharStream" where
  "readWhile predicate str stream =
     (case stringPeek stream of
        None \<Rightarrow> (str, stream)
      | Some ch \<Rightarrow>
          if predicate ch
          then readWhile predicate (str @ [ch]) (snd (CharStream_next stream))
          else (str, stream))"
  by pat_completeness auto
termination
  by (relation "measure (\<lambda>(p, s, stream). length (input stream) - pos stream)")
     (auto simp: stringPeek_def CharStream_next_def Let_def split: if_splits)

declare readWhile.simps [simp del]

definition skipRestOfLine :: "CharStream \<Rightarrow> CharStream" where
  "skipRestOfLine stream = snd (CharStream_next (snd (readWhile isNotEOL [] stream)))"

text \<open>
  In \<open>readNumber\<close> the predicate handed to \<open>readWhile\<close> is a closure over the flag
  \<open>hasDot\<close>, which it sets at the first dot; the loop is written out with the flag as an
  argument.
\<close>

function readNumber_loop :: "bool \<Rightarrow> string \<Rightarrow> CharStream \<Rightarrow> string \<times> CharStream" where
  "readNumber_loop hasDot str stream =
     (case stringPeek stream of
        None \<Rightarrow> (str, stream)
      | Some ch \<Rightarrow>
          if ch = CHR ''.''
          then (if hasDot then (str, stream)
                else readNumber_loop True (str @ [ch]) (snd (CharStream_next stream)))
          else if isDigit ch
          then readNumber_loop hasDot (str @ [ch]) (snd (CharStream_next stream))
          else (str, stream))"
  by pat_completeness auto
termination
  by (relation "measure (\<lambda>(h, s, stream). length (input stream) - pos stream)")
     (auto simp: stringPeek_def CharStream_next_def Let_def split: if_splits)

declare readNumber_loop.simps [simp del]

definition digit_val :: "char \<Rightarrow> nat" where
  "digit_val ch = of_char ch - 48"

definition digits_val :: "string \<Rightarrow> nat" where
  "digits_val ds = foldl (\<lambda>acc ch. 10 * acc + digit_val ch) 0 ds"

text \<open>
  \<open>parseFloat\<close> on the strings \<open>readNumber\<close> accumulates: a digit, then digits with at most
  one dot among them. The result is the exact value of that decimal numeral.
\<close>

definition parseFloat :: "string \<Rightarrow> rat" where
  "parseFloat number =
     (let whole = takeWhile isDigit number;
          frac = takeWhile isDigit (tl (dropWhile isDigit number))
      in of_nat (digits_val whole) + of_nat (digits_val frac) / 10 ^ length frac)"

definition readNumber :: "CharStream \<Rightarrow> rat \<times> CharStream" where
  "readNumber stream =
     (case readNumber_loop False [] stream of (number, stream1) \<Rightarrow> (parseFloat number, stream1))"

definition readIdentifier :: "CharStream \<Rightarrow> string \<times> CharStream" where
  "readIdentifier stream = readWhile isIdentifier [] stream"

function readString_loop :: "bool \<Rightarrow> string \<Rightarrow> CharStream \<Rightarrow> string \<times> CharStream" where
  "readString_loop escaped str stream =
     (case stringPeek stream of
        None \<Rightarrow> (str, stream)
      | Some ch \<Rightarrow>
          let stream1 = snd (CharStream_next stream)
          in if escaped then readString_loop False (str @ [ch]) stream1
             else if ch = CHR 0x5C then readString_loop True str stream1
             else if isStringBoundary ch then (str, stream1)
             else readString_loop escaped (str @ [ch]) stream1)"
  by pat_completeness auto
termination
  by (relation "measure (\<lambda>(e, s, stream). length (input stream) - pos stream)")
     (auto simp: stringPeek_def CharStream_next_def Let_def split: if_splits)

declare readString_loop.simps [simp del]

definition readString :: "CharStream \<Rightarrow> string \<times> CharStream" where
  "readString stream = readString_loop False [] (snd (CharStream_next stream))"

definition readOperator :: "CharStream \<Rightarrow> string \<times> CharStream" where
  "readOperator stream = readWhile isOperator [] stream"

section \<open>Tokens\<close>

definition Tokens_string :: "string \<Rightarrow> token" where
  "Tokens_string v = Token Str (SV v)"

definition Tokens_numeric :: "rat \<Rightarrow> token" where
  "Tokens_numeric v = Token Num (NV v)"

definition Tokens_identifier :: "string \<Rightarrow> token" where
  "Tokens_identifier v = Token Id (SV v)"

definition Tokens_keyword :: "string \<Rightarrow> token" where
  "Tokens_keyword v = Token Kw (SV v)"

definition Tokens_operator :: "string \<Rightarrow> token" where
  "Tokens_operator v = Token Op (SV v)"

definition Tokens_punctuation :: "string \<Rightarrow> token" where
  "Tokens_punctuation v = Token Punc (SV v)"

section \<open>Luthor\<close>

text \<open>The string a \<open>CharStream\<close> read returns: one character, or the empty string at the end.\<close>

definition char_string :: "char option \<Rightarrow> string" where
  "char_string c = (case c of None \<Rightarrow> [] | Some ch \<Rightarrow> [ch])"

text \<open>
  \<open>readNextToken\<close> returns \<^term>\<open>None\<close> for JavaScript's \<open>null\<close> at the end of the input. It calls
  itself after a comment; every comment consumes at least its \<open>#\<close>, which is the
  termination argument.
\<close>

function readNextToken :: "CharStream \<Rightarrow> (token option, CharStream) result" where
  "readNextToken stream =
     (let stream1 = snd (readWhile isWhiteSpace [] stream)
      in case stringPeek stream1 of
           None \<Rightarrow> Return None stream1
         | Some ch \<Rightarrow>
             if isComment ch then readNextToken (skipRestOfLine stream1)
             else if isStringBoundary ch then
               (case readString (snd (CharStream_next stream1)) of
                  (v, stream2) \<Rightarrow> Return (Some (Tokens_string v)) stream2)
             else if isDigit ch then
               (case readNumber stream1 of
                  (v, stream2) \<Rightarrow> Return (Some (Tokens_numeric v)) stream2)
             else if isStartOfIdentifier ch then
               (case readIdentifier stream1 of
                  (identifier, stream2) \<Rightarrow>
                    Return (Some (if isKeyword identifier then Tokens_keyword identifier
                                  else Tokens_identifier identifier)) stream2)
             else if isPunctuation ch then
               (case CharStream_next stream1 of
                  (c, stream2) \<Rightarrow> Return (Some (Tokens_punctuation (char_string c))) stream2)
             else if isOperator ch then
               (case readOperator stream1 of
                  (v, stream2) \<Rightarrow> Return (Some (Tokens_operator v)) stream2)
             else Throw (CharStream_die stream1
                           (Text (''Illegal character at this position: '' @ [ch]))))"
  by pat_completeness auto
termination
proof (relation "measure (\<lambda>stream. length (input stream) - pos stream)")
  show "wf (measure (\<lambda>stream. length (input stream) - pos stream))"
    by simp
next
  fix stream :: CharStream and stream1 ch
  assume s1: "stream1 = snd (readWhile isWhiteSpace [] stream)"
    and pk: "stringPeek stream1 = Some ch"
  have nx: "input (snd (CharStream_next s)) = input s \<and> pos (snd (CharStream_next s)) = Suc (pos s)"
    for s
    by (simp add: CharStream_next_def Let_def)
  have rw: "input (snd (readWhile p str s)) = input s \<and> pos s \<le> pos (snd (readWhile p str s))"
    for p str s
  proof (induction p str s rule: readWhile.induct)
    case (1 predicate str stream)
    note unfold = readWhile.simps [of predicate str stream]
    show ?case
    proof (cases "stringPeek stream")
      case None
      then show ?thesis by (simp add: unfold)
    next
      case (Some c)
      show ?thesis
      proof (cases "predicate c")
        case True
        with Some "1.IH" [of c] show ?thesis
          by (simp add: unfold nx)
      next
        case False
        with Some show ?thesis by (simp add: unfold)
      qed
    qed
  qed
  have a: "input stream1 = input stream" and b: "pos stream \<le> pos stream1"
    using rw [of isWhiteSpace "[]" stream] s1 by simp_all
  have c: "pos stream1 < length (input stream1)"
    using pk by (simp add: stringPeek_def split: if_splits)
  have d: "input (skipRestOfLine stream1) = input stream1"
    and e: "pos stream1 < pos (skipRestOfLine stream1)"
    using rw [of isNotEOL "[]" stream1]
    by (simp_all add: skipRestOfLine_def nx)
  show "(skipRestOfLine stream1, stream) \<in> measure (\<lambda>stream. length (input stream) - pos stream)"
    using a b c d e by simp
qed

declare readNextToken.simps [simp del]

record Luthor =
  current :: "token option"
  stream :: CharStream

definition new_Luthor :: "CharStream \<Rightarrow> Luthor" where
  "new_Luthor s = \<lparr>current = None, stream = s\<rparr>"

text \<open>
  \<open>peek\<close> is \<open>current || (current = readNextToken())\<close>; a token is an object and so
  never falsy, \<open>null\<close> is.
\<close>

definition Luthor_peek :: "Luthor \<Rightarrow> (token option, Luthor) result" where
  "Luthor_peek L =
     (case current L of
        Some t \<Rightarrow> Return (Some t) L
      | None \<Rightarrow>
          (case readNextToken (stream L) of
             Throw e \<Rightarrow> Throw e
           | Return t s \<Rightarrow> Return t (L\<lparr>current := t, stream := s\<rparr>)))"

definition Luthor_next :: "Luthor \<Rightarrow> (token option, Luthor) result" where
  "Luthor_next L =
     (case current L of
        Some t \<Rightarrow> Return (Some t) (L\<lparr>current := None\<rparr>)
      | None \<Rightarrow>
          (case readNextToken (stream L) of
             Throw e \<Rightarrow> Throw e
           | Return t s \<Rightarrow> Return t (L\<lparr>current := None, stream := s\<rparr>)))"

definition Luthor_eof :: "Luthor \<Rightarrow> (bool, Luthor) result" where
  "Luthor_eof L =
     (case Luthor_peek L of
        Throw e \<Rightarrow> Throw e
      | Return t L1 \<Rightarrow> Return (t = None) L1)"

definition Luthor_die :: "Luthor \<Rightarrow> message \<Rightarrow> error" where
  "Luthor_die L msg = CharStream_die (stream L) msg"

section \<open>Types\<close>

text \<open>
  \<open>checkTypeAndValue\<close> guards against a \<open>null\<close> token (\<open>token && ...\<close>); the value argument
  is optional (\<open>"undefined" === typeof(value)\<close>).
\<close>

definition checkTypeAndValue :: "token option \<Rightarrow> ttype \<Rightarrow> string option \<Rightarrow> bool" where
  "checkTypeAndValue tok ty v =
     (case tok of
        None \<Rightarrow> False
      | Some t \<Rightarrow> ty = tok_type t \<and> (case v of None \<Rightarrow> True | Some x \<Rightarrow> SV x = tok_value t))"

definition isPunc :: "token option \<Rightarrow> string option \<Rightarrow> bool" where
  "isPunc tok v = checkTypeAndValue tok Punc v"

definition isOp :: "token option \<Rightarrow> string option \<Rightarrow> bool" where
  "isOp tok v = checkTypeAndValue tok Op v"

definition isId :: "token option \<Rightarrow> string option \<Rightarrow> bool" where
  "isId tok v = checkTypeAndValue tok Id v"

definition isKw :: "token option \<Rightarrow> string option \<Rightarrow> bool" where
  "isKw tok v = checkTypeAndValue tok Kw v"

text \<open>\<open>isOneOfType\<close> reads \<open>token.type\<close> unguarded: on \<open>null\<close> that is a \<open>TypeError\<close>.\<close>

definition isOneOfType :: "token option \<Rightarrow> ttype list \<Rightarrow> error + bool" where
  "isOneOfType tok types =
     (case tok of
        None \<Rightarrow> Inl TypeError
      | Some t \<Rightarrow> Inr (tok_type t \<in> set types))"

section \<open>Nodes\<close>

text \<open>
  A node is a token carried through as a leaf, \<open>null\<close>, a bare JavaScript number or string
  (\<open>signed\<close> builds its product with the bare number \<open>-1\<close>), or one of the objects \<open>Nodes\<close>
  builds. The \<open>name\<close> of a rule is \<^term>\<open>None\<close> when it is \<open>undefined\<close>.
\<close>

datatype node =
    Leaf token
  | Null
  | Lit tvalue
  | Block "node list"
  | Call node "node list"
  | Rule "tvalue option" "node list" node
  | BinaryExpression tvalue node node
  | Assign tvalue node node
  | Bool bool

definition PRECEDENCE_table :: "(string \<times> nat) list" where
  "PRECEDENCE_table =
     [(''='', 1),
      (''||'', 5),
      (''&&'', 10),
      (''<'', 15), (''>'', 15), (''<='', 15), (''>='', 15), (''=='', 15), (''!='', 15),
      (''+'', 20), (''-'', 20),
      (''*'', 25), (''/'', 25), (''%'', 25)]"

text \<open>\<open>PRECEDENCE[op]\<close>: \<^term>\<open>None\<close> is \<open>undefined\<close>, for which every comparison is false.\<close>

definition PRECEDENCE :: "tvalue \<Rightarrow> nat option" where
  "PRECEDENCE op = (case op of SV s \<Rightarrow> map_of PRECEDENCE_table s | NV x \<Rightarrow> None)"

definition Nodes_blockStatement :: "node list \<Rightarrow> node" where
  "Nodes_blockStatement body = Block body"

definition Nodes_invocation :: "node \<Rightarrow> node list \<Rightarrow> node" where
  "Nodes_invocation nd args = Call nd args"

definition Nodes_rule :: "tvalue option \<Rightarrow> node list \<Rightarrow> node \<Rightarrow> node" where
  "Nodes_rule name args body = Rule name args body"

definition Nodes_binaryExpression :: "tvalue \<Rightarrow> node \<Rightarrow> node \<Rightarrow> node" where
  "Nodes_binaryExpression op left right =
     (if SV ''='' = op then Assign op left right else BinaryExpression op left right)"

definition Nodes_bool :: "bool \<Rightarrow> node" where
  "Nodes_bool v = Bool v"

definition node_of :: "token option \<Rightarrow> node" where
  "node_of tok = (case tok of None \<Rightarrow> Null | Some t \<Rightarrow> Leaf t)"

section \<open>Parsicle\<close>

definition rbind :: "('a, 's) result \<Rightarrow> ('a \<Rightarrow> 's \<Rightarrow> ('b, 's) result) \<Rightarrow> ('b, 's) result" where
  "rbind m f = (case m of Throw e \<Rightarrow> Throw e | Return a s \<Rightarrow> f a s)"

definition expectIdentifier :: "Luthor \<Rightarrow> (token option, Luthor) result" where
  "expectIdentifier L =
     rbind (Luthor_peek L) (\<lambda>tok L1.
       if \<not> isId tok None then Throw (Luthor_die L1 (Text ''Expected an identifier''))
       else Luthor_next L1)"

definition expectOps :: "string list \<Rightarrow> Luthor \<Rightarrow> (token option, Luthor) result" where
  "expectOps operators L =
     rbind (Luthor_peek L) (\<lambda>tok L1.
       if \<not> isOp tok None \<or> (case tok of None \<Rightarrow> True | Some t \<Rightarrow> tok_value t \<notin> SV ` set operators)
       then Throw (Luthor_die L1 (ExpectedOperators operators))
       else Luthor_next L1)"

definition expectPunc :: "string \<Rightarrow> Luthor \<Rightarrow> (token option, Luthor) result" where
  "expectPunc ch L =
     rbind (Luthor_peek L) (\<lambda>tok L1.
       if \<not> isPunc tok (Some ch)
       then Throw (Luthor_die L1 (Text (''Expected '' @ [CHR 0x22] @ ch @ [CHR 0x22])))
       else Luthor_next L1)"

definition Parsicle_die :: "Luthor \<Rightarrow> ('a, Luthor) result" where
  "Parsicle_die L =
     (case Luthor_peek L of
        Throw e \<Rightarrow> Throw e
      | Return tok L1 \<Rightarrow> Throw (Luthor_die L1 (UnexpectedToken tok)))"

text \<open>
  The parsing functions call each other without a structural bound. Each of them is written
  as in the source, with one more argument \<open>P\<close>: the functions its nested calls go to.
  \<^term>\<open>None\<close> means that the nesting allowed was too small, and is not a result of the
  program. A \<open>while\<close> loop is a function that calls itself for the next iteration.

  \<open>handleInvocation(callable)\<close> first runs \<open>callable\<close>; the model runs it at the call site
  and hands its node over. \<open>delimited\<close> is told by a tag which of its two parser functions
  to run.
\<close>

definition andThen ::
  "('a, 's) result option \<Rightarrow> ('a \<Rightarrow> 's \<Rightarrow> ('b, 's) result option) \<Rightarrow> ('b, 's) result option" where
  "andThen m f =
     (case m of
        None \<Rightarrow> None
      | Some (Throw e) \<Rightarrow> Some (Throw e)
      | Some (Return a s) \<Rightarrow> f a s)"

datatype parserFn = PF_expression | PF_expectIdentifier

record calls =
  call_expression :: "Luthor \<Rightarrow> (node, Luthor) result option"
  call_parenthetical :: "Luthor \<Rightarrow> (node, Luthor) result option"
  call_block :: "Luthor \<Rightarrow> (node, Luthor) result option"
  call_rule :: "Luthor \<Rightarrow> (node, Luthor) result option"
  call_signed :: "Luthor \<Rightarrow> (node, Luthor) result option"
  call_discrete :: "Luthor \<Rightarrow> (node, Luthor) result option"
  call_delimited ::
    "string \<Rightarrow> string \<Rightarrow> string \<Rightarrow> parserFn \<Rightarrow> Luthor \<Rightarrow> (node list, Luthor) result option"
  call_delimited_loop ::
    "string \<Rightarrow> string \<Rightarrow> parserFn \<Rightarrow> bool \<Rightarrow> node list \<Rightarrow> Luthor
      \<Rightarrow> (node list, Luthor) result option"
  call_handleInvocation :: "node \<Rightarrow> Luthor \<Rightarrow> (node, Luthor) result option"
  call_resolveOperatorBindings :: "node \<Rightarrow> nat \<Rightarrow> Luthor \<Rightarrow> (node, Luthor) result option"

definition expression :: "calls \<Rightarrow> Luthor \<Rightarrow> (node, Luthor) result option" where
  "expression P L =
     andThen
       (andThen (call_discrete P L) (\<lambda>leftNode L1.
          call_resolveOperatorBindings P leftNode 0 L1))
       (\<lambda>nd L2. call_handleInvocation P nd L2)"

definition parenthetical :: "calls \<Rightarrow> Luthor \<Rightarrow> (node, Luthor) result option" where
  "parenthetical P L =
     andThen (Some (expectPunc ''('' L)) (\<lambda>_ L1.
     andThen (call_expression P L1) (\<lambda>exp L2.
     andThen (Some (expectPunc '')'' L2)) (\<lambda>_ L3.
     Some (Return exp L3))))"

definition block :: "calls \<Rightarrow> Luthor \<Rightarrow> (node, Luthor) result option" where
  "block P L =
     andThen (call_delimited P ''{'' ''}'' '';'' PF_expression L) (\<lambda>body L1.
     Some (Return (case body of [x] \<Rightarrow> x | _ \<Rightarrow> Nodes_blockStatement body) L1))"

definition rule :: "calls \<Rightarrow> Luthor \<Rightarrow> (node, Luthor) result option" where
  "rule P L =
     andThen (Some (Luthor_next L)) (\<lambda>_ L1.
     andThen (Some (Luthor_peek L1)) (\<lambda>tok L2.
     andThen
       (if isId tok None
        then Some (rbind (expectIdentifier L2) (\<lambda>ident L'.
               case ident of
                 None \<Rightarrow> Throw TypeError
               | Some t \<Rightarrow> Return (Some (tok_value t)) L'))
        else Some (Return None L2)) (\<lambda>name L3.
     andThen (Some (Luthor_peek L3)) (\<lambda>tok1 L4.
     if \<not> isPunc tok1 (Some ''('')
     then Some (Throw (Luthor_die L4 (Text ''Missing argument list for rule declaration'')))
     else
     andThen (call_delimited P ''('' '')'' '','' PF_expectIdentifier L4) (\<lambda>args L5.
     andThen (Some (Luthor_peek L5)) (\<lambda>tok2 L6.
     if \<not> isPunc tok2 (Some ''{'')
     then Some (Throw (Luthor_die L6 (Text ''Missing body for rule declaration'')))
     else
     andThen (call_block P L6) (\<lambda>body L7.
     Some (Return (Nodes_rule name args body) L7))))))))"

definition signed :: "calls \<Rightarrow> Luthor \<Rightarrow> (node, Luthor) result option" where
  "signed P L =
     andThen (Some (expectOps [''-'', ''+''] L)) (\<lambda>sign L1.
     andThen (Some (Luthor_peek L1)) (\<lambda>tok L2.
     case (if isPunc tok (Some ''('') then Inr True else isOneOfType tok [Num, Id]) of
       Inl e \<Rightarrow> Some (Throw e)
     | Inr ok \<Rightarrow>
         if \<not> ok then Some (Throw (Luthor_die L2 (Text ''Expected signed expression'')))
         else
           (case sign of
              None \<Rightarrow> Some (Throw TypeError)
            | Some s \<Rightarrow>
                if SV ''-'' = tok_value s
                then andThen (call_discrete P L2) (\<lambda>d L3.
                       Some (Return (Nodes_binaryExpression (SV ''*'') (Lit (NV (- 1))) d) L3))
                else call_discrete P L2)))"

definition discrete :: "calls \<Rightarrow> Luthor \<Rightarrow> (node, Luthor) result option" where
  "discrete P L =
     andThen
       (andThen (Some (Luthor_peek L)) (\<lambda>cur L1.
          if isPunc cur (Some ''('') then call_parenthetical P L1
          else if isPunc cur (Some ''{'') then call_block P L1
          else if isKw cur (Some ''rule'') then call_rule P L1
          else if isOp cur (Some ''-'') \<or> isOp cur (Some ''+'') then call_signed P L1
          else
            (case isOneOfType cur [Num, Str, Id] of
               Inl e \<Rightarrow> Some (Throw e)
             | Inr True \<Rightarrow>
                 andThen (Some (Luthor_next L1)) (\<lambda>tok L2. Some (Return (node_of tok) L2))
             | Inr False \<Rightarrow> Some (Parsicle_die L1))))
       (\<lambda>nd L3. call_handleInvocation P nd L3)"

definition delimited ::
  "calls \<Rightarrow> string \<Rightarrow> string \<Rightarrow> string \<Rightarrow> parserFn \<Rightarrow> Luthor \<Rightarrow> (node list, Luthor) result option" where
  "delimited P start stop separator parserFn L =
     andThen (Some (expectPunc start L)) (\<lambda>_ L1.
     andThen (call_delimited_loop P stop separator parserFn True [] L1) (\<lambda>body L2.
     andThen (Some (expectPunc stop L2)) (\<lambda>_ L3.
     Some (Return body L3))))"

definition delimited_loop ::
  "calls \<Rightarrow> string \<Rightarrow> string \<Rightarrow> parserFn \<Rightarrow> bool \<Rightarrow> node list \<Rightarrow> Luthor
    \<Rightarrow> (node list, Luthor) result option" where
  "delimited_loop P stop separator parserFn first body L =
     andThen (Some (Luthor_eof L)) (\<lambda>at_end L1.
     if at_end then Some (Return body L1)
     else
     andThen (Some (Luthor_peek L1)) (\<lambda>tok L2.
     if isPunc tok (Some stop) then Some (Return body L2)
     else
     andThen (if first then Some (Return None L2) else Some (expectPunc separator L2)) (\<lambda>_ L3.
     andThen (Some (Luthor_peek L3)) (\<lambda>tok1 L4.
     if isPunc tok1 (Some stop) then Some (Return body L4)
     else
     andThen
       (case parserFn of
          PF_expression \<Rightarrow> call_expression P L4
        | PF_expectIdentifier \<Rightarrow>
            Some (rbind (expectIdentifier L4) (\<lambda>t L'. Return (node_of t) L'))) (\<lambda>x L5.
     call_delimited_loop P stop separator parserFn False (body @ [x]) L5)))))"

definition handleInvocation :: "calls \<Rightarrow> node \<Rightarrow> Luthor \<Rightarrow> (node, Luthor) result option" where
  "handleInvocation P nd L =
     andThen (Some (Luthor_peek L)) (\<lambda>tok L1.
     if isPunc tok (Some ''('')
     then andThen (call_delimited P ''('' '')'' '','' PF_expression L1) (\<lambda>args L2.
            Some (Return (Nodes_invocation nd args) L2))
     else Some (Return nd L1))"

definition resolveOperatorBindings ::
  "calls \<Rightarrow> node \<Rightarrow> nat \<Rightarrow> Luthor \<Rightarrow> (node, Luthor) result option" where
  "resolveOperatorBindings P leftNode thisPrecedence L =
     andThen (Some (Luthor_peek L)) (\<lambda>tok L1.
     case tok of
       None \<Rightarrow> Some (Return leftNode L1)
     | Some t \<Rightarrow>
         if isOp tok None
         then
           (case PRECEDENCE (tok_value t) of
              None \<Rightarrow> Some (Return leftNode L1)
            | Some thatPrecedence \<Rightarrow>
                if thatPrecedence > thisPrecedence
                then
                  andThen (Some (Luthor_next L1)) (\<lambda>_ L2.
                  andThen (call_discrete P L2) (\<lambda>d L3.
                  andThen (call_resolveOperatorBindings P d thatPrecedence L3) (\<lambda>rightNode L4.
                  call_resolveOperatorBindings P
                    (Nodes_binaryExpression (tok_value t) leftNode rightNode) thisPrecedence L4)))
                else Some (Return leftNode L1))
         else Some (Return leftNode L1))"

text \<open>
  \<open>Parsicle n\<close> is the parser's functions with \<open>n\<close> levels of nested calls allowed: a call
  goes to the function itself, one level further down.
\<close>

primrec Parsicle :: "nat \<Rightarrow> calls" where
  "Parsicle 0 =
     \<lparr>call_expression = (\<lambda>L. None),
      call_parenthetical = (\<lambda>L. None),
      call_block = (\<lambda>L. None),
      call_rule = (\<lambda>L. None),
      call_signed = (\<lambda>L. None),
      call_discrete = (\<lambda>L. None),
      call_delimited = (\<lambda>start stop separator parserFn L. None),
      call_delimited_loop = (\<lambda>stop separator parserFn first body L. None),
      call_handleInvocation = (\<lambda>nd L. None),
      call_resolveOperatorBindings = (\<lambda>leftNode thisPrecedence L. None)\<rparr>"
| "Parsicle (Suc n) =
     (let P = Parsicle n
      in \<lparr>call_expression = expression P,
          call_parenthetical = parenthetical P,
          call_block = block P,
          call_rule = rule P,
          call_signed = signed P,
          call_discrete = discrete P,
          call_delimited = delimited P,
          call_delimited_loop = delimited_loop P,
          call_handleInvocation = handleInvocation P,
          call_resolveOperatorBindings = resolveOperatorBindings P\<rparr>)"

declare Parsicle.simps [simp del]

text \<open>
  \<open>parse\<close>: \<open>ast\<close> is the array the parser was constructed with, empty until \<open>parse\<close> runs.
  The loop takes the number of iterations it may still make.
\<close>

fun parse_loop :: "calls \<Rightarrow> nat \<Rightarrow> node list \<Rightarrow> Luthor \<Rightarrow> (node list, Luthor) result option" where
  "parse_loop P 0 ast L = None"
| "parse_loop P (Suc k) ast L =
     andThen (Some (Luthor_eof L)) (\<lambda>at_end L1.
     if at_end then Some (Return ast L1)
     else
     andThen (call_expression P L1) (\<lambda>x L2.
     andThen (Some (Luthor_eof L2)) (\<lambda>at_end1 L3.
     andThen (if \<not> at_end1 then Some (expectPunc '';'' L3) else Some (Return None L3)) (\<lambda>_ L4.
     parse_loop P k (ast @ [x]) L4))))"

definition parse :: "nat \<Rightarrow> Luthor \<Rightarrow> (node list, Luthor) result option" where
  "parse n L =
     andThen (call_expression (Parsicle n) L) (\<lambda>x L1. parse_loop (Parsicle n) n [x] L1)"

text \<open>
  The program: \<open>new Parsicle(new Lex.Luthor(new Lex.CharStream(content))).parse()\<close>, with the
  final state of the token stream dropped from what is reported.
\<close>

definition outcome :: "('a, 's) result option \<Rightarrow> (error + 'a) option" where
  "outcome r = map_option (\<lambda>x. case x of Throw e \<Rightarrow> Inl e | Return a s \<Rightarrow> Inr a) r"

definition Parsicle_parse :: "nat \<Rightarrow> string \<Rightarrow> (error + node list) option" where
  "Parsicle_parse n content = outcome (parse n (new_Luthor (new_CharStream content)))"

section \<open>Documents of whitespace and comments, in the words of the specification\<close>

text \<open>
  \<open>blank False cs\<close>: the text \<open>cs\<close> consists solely of whitespace (space, tab, newline)
  and comments, a comment running from a \<open>#\<close> through the end of its line. The flag tells
  whether the text starts inside a comment.
\<close>

fun blank :: "bool \<Rightarrow> string \<Rightarrow> bool" where
  "blank in_comment [] = True"
| "blank in_comment (ch # cs) =
     (if in_comment then blank (ch \<noteq> CHR 0x0A) cs
      else if ch = CHR ''#'' then blank True cs
      else isWhiteSpace ch \<and> blank False cs)"

section \<open>Unterminated string literals, in the words of the specification\<close>

text \<open>
  The specification reads a literal's content with backslash-escaping: a backslash makes the
  following character literal, also a boundary character. \<open>spec_closed escaped cs\<close>: an
  unescaped boundary character is found in \<open>cs\<close>. \<open>spec_accumulated escaped cs\<close>: the
  characters accumulated from \<open>cs\<close>, up to such a boundary character if there is one.
\<close>

fun spec_closed :: "bool \<Rightarrow> string \<Rightarrow> bool" where
  "spec_closed escaped [] = False"
| "spec_closed escaped (ch # cs) =
     (if escaped then spec_closed False cs
      else if ch = CHR 0x5C then spec_closed True cs
      else if ch = CHR 0x22 then True
      else spec_closed False cs)"

fun spec_accumulated :: "bool \<Rightarrow> string \<Rightarrow> string" where
  "spec_accumulated escaped [] = []"
| "spec_accumulated escaped (ch # cs) =
     (if escaped then ch # spec_accumulated False cs
      else if ch = CHR 0x5C then spec_accumulated True cs
      else if ch = CHR 0x22 then []
      else ch # spec_accumulated False cs)"

section \<open>Nesting allowed to the parser\<close>

text \<open>
  \<open>le_opt a b\<close>: whatever \<open>a\<close> returns, \<open>b\<close> returns too. \<open>extends P Q\<close>: every nested call
  that returns under \<open>P\<close> returns the same under \<open>Q\<close>.
\<close>

definition le_opt :: "'a option \<Rightarrow> 'a option \<Rightarrow> bool" where
  "le_opt a b = (a = None \<or> a = b)"

definition extends :: "calls \<Rightarrow> calls \<Rightarrow> bool" where
  "extends P Q =
     ((\<forall>L. le_opt (call_expression P L) (call_expression Q L)) \<and>
      (\<forall>L. le_opt (call_parenthetical P L) (call_parenthetical Q L)) \<and>
      (\<forall>L. le_opt (call_block P L) (call_block Q L)) \<and>
      (\<forall>L. le_opt (call_rule P L) (call_rule Q L)) \<and>
      (\<forall>L. le_opt (call_signed P L) (call_signed Q L)) \<and>
      (\<forall>L. le_opt (call_discrete P L) (call_discrete Q L)) \<and>
      (\<forall>a b c d L. le_opt (call_delimited P a b c d L) (call_delimited Q a b c d L)) \<and>
      (\<forall>a b c d e L. le_opt (call_delimited_loop P a b c d e L) (call_delimited_loop Q a b c d e L)) \<and>
      (\<forall>nd L. le_opt (call_handleInvocation P nd L) (call_handleInvocation Q nd L)) \<and>
      (\<forall>nd p L. le_opt (call_resolveOperatorBindings P nd p L)
                   (call_resolveOperatorBindings Q nd p L)))"

section \<open>Trees without a \<open>bool\<close> node\<close>

text \<open>
  \<open>has_bool nd\<close>: somewhere in the tree \<open>nd\<close> there is a node that \<open>Nodes.bool\<close> built. A
  token kept as a leaf has one of the six token types, none of which is \<open>bool\<close>.
  \<open>ok Q r\<close>: if \<open>r\<close> is a value returned, \<open>Q\<close> holds of it. \<open>no_bool_calls P\<close>: no nested
  call brings a \<open>bool\<close> node in, unless it was handed one.
\<close>

fun has_bool :: "node \<Rightarrow> bool" where
  "has_bool (Leaf t) = False"
| "has_bool Null = False"
| "has_bool (Lit v) = False"
| "has_bool (Block body) = list_ex has_bool body"
| "has_bool (Call func args) = (has_bool func \<or> list_ex has_bool args)"
| "has_bool (Rule name args body) = (list_ex has_bool args \<or> has_bool body)"
| "has_bool (BinaryExpression op left right) = (has_bool left \<or> has_bool right)"
| "has_bool (Assign op left right) = (has_bool left \<or> has_bool right)"
| "has_bool (Bool v) = True"

definition nb :: "node \<Rightarrow> bool" where
  "nb nd = (\<not> has_bool nd)"

definition nbs :: "node list \<Rightarrow> bool" where
  "nbs nds = (\<not> list_ex has_bool nds)"

definition ok :: "('a \<Rightarrow> bool) \<Rightarrow> ('a, 's) result option \<Rightarrow> bool" where
  "ok Q r = (case r of Some (Return a s) \<Rightarrow> Q a | _ \<Rightarrow> True)"

definition no_bool_calls :: "calls \<Rightarrow> bool" where
  "no_bool_calls P =
     ((\<forall>L. ok nb (call_expression P L)) \<and>
      (\<forall>L. ok nb (call_parenthetical P L)) \<and>
      (\<forall>L. ok nb (call_block P L)) \<and>
      (\<forall>L. ok nb (call_rule P L)) \<and>
      (\<forall>L. ok nb (call_signed P L)) \<and>
      (\<forall>L. ok nb (call_discrete P L)) \<and>
      (\<forall>start stop sep pf L. ok nbs (call_delimited P start stop sep pf L)) \<and>
      (\<forall>stop sep pf first body L. nbs body \<longrightarrow>
         ok nbs (call_delimited_loop P stop sep pf first body L)) \<and>
      (\<forall>x L. nb x \<longrightarrow> ok nb (call_handleInvocation P x L)) \<and>
      (\<forall>x p L. nb x \<longrightarrow> ok nb (call_resolveOperatorBindings P x p L)))"

section \<open>Token sequences\<close>

text \<open>
  \<open>leaf_token t\<close>: \<open>discrete\<close> carries \<open>t\<close> through as a leaf (a number, a string or an
  identifier). \<open>yields L ts\<close>: from the state \<open>L\<close>, the token stream hands out exactly the
  tokens \<open>ts\<close>, one \<open>peek()\<close> and \<open>next()\<close> after the other, and then the end marker.
\<close>

definition leaf_token :: "token \<Rightarrow> bool" where
  "leaf_token t = (tok_type t \<in> set [Num, Str, Id])"

fun yields :: "Luthor \<Rightarrow> token list \<Rightarrow> bool" where
  "yields L [] = (case Luthor_peek L of Return None L1 \<Rightarrow> True | _ \<Rightarrow> False)"
| "yields L (t # ts) =
     (case Luthor_peek L of
        Return (Some t') L1 \<Rightarrow> t' = t \<and> yields (L1\<lparr>current := None\<rparr>) ts
      | _ \<Rightarrow> False)"

section \<open>Operator chains, in the words of the specification\<close>

text \<open>
  A chain is a leaf operand followed by pairs of an operator and a leaf operand;
  \<open>ops_tokens rest\<close> is the tokens of the pairs \<open>rest\<close>, and a pair is \<open>recognized\<close> when
  its operator has a binding power and its operand is a leaf.

  What it means that a tree nests the operands of a chain according to the binding powers:
  \<open>flatten\<close> reads a tree of leaves and binary nodes back into its tokens in source order,
  and \<open>nested\<close> says of every binary node that its operator has a binding power, that a
  binary node to its left has at least that power and one to its right a greater one
  (\<open>binds\<close>), and that the node is an \<open>Assign\<close> exactly when the operator is \<open>=\<close>. So an
  operand between two operators belongs to the one of greater power, and to the left one
  when the powers are equal. \<open>first_power rest\<close> is the power of the first operator of
  \<open>rest\<close>.
\<close>

definition ops_tokens :: "(string \<times> token) list \<Rightarrow> token list" where
  "ops_tokens rest = concat (map (\<lambda>(opr, x). [Token Op (SV opr), x]) rest)"

definition recognized :: "string \<times> token \<Rightarrow> bool" where
  "recognized ox = (case ox of (opr, x) \<Rightarrow> PRECEDENCE (SV opr) \<noteq> None \<and> leaf_token x)"

fun root_power :: "node \<Rightarrow> nat option" where
  "root_power (BinaryExpression opr left right) = PRECEDENCE opr"
| "root_power (Assign opr left right) = PRECEDENCE opr"
| "root_power nd = None"

fun flatten :: "node \<Rightarrow> token list" where
  "flatten (Leaf t) = [t]"
| "flatten (BinaryExpression opr left right) = flatten left @ [Token Op opr] @ flatten right"
| "flatten (Assign opr left right) = flatten left @ [Token Op opr] @ flatten right"
| "flatten nd = []"

definition binds :: "tvalue \<Rightarrow> node \<Rightarrow> node \<Rightarrow> bool" where
  "binds opr left right =
     (case PRECEDENCE opr of
        None \<Rightarrow> False
      | Some p \<Rightarrow>
          (case root_power left of None \<Rightarrow> True | Some pl \<Rightarrow> p \<le> pl) \<and>
          (case root_power right of None \<Rightarrow> True | Some pr \<Rightarrow> p < pr))"

fun nested :: "node \<Rightarrow> bool" where
  "nested (Leaf t) = True"
| "nested (BinaryExpression opr left right) =
     (opr \<noteq> SV ''='' \<and> binds opr left right \<and> nested left \<and> nested right)"
| "nested (Assign opr left right) =
     (opr = SV ''='' \<and> binds opr left right \<and> nested left \<and> nested right)"
| "nested nd = False"

definition first_power :: "(string \<times> token) list \<Rightarrow> nat option" where
  "first_power rest = (case rest of [] \<Rightarrow> None | (opr, x) # r \<Rightarrow> PRECEDENCE (SV opr))"

section \<open>Expressions with operands of any kind\<close>

text \<open>
  An operand is whatever \<open>discrete\<close> returns: a leaf, a parenthesised expression, a call, a
  block, a rule. A \<open>shape\<close> is a tree of binary nodes over operands taken as they are,
  \<open>shape_node\<close> the node the parser builds for it, \<open>items\<close> its operands and operators in
  source order. \<open>shape_nested\<close> says of every binary node of the shape that its operator
  has a binding power, that a binary node to its left has at least that power and one to its
  right a greater one.
\<close>

datatype shape = Operand node | Binary tvalue shape shape

fun shape_node :: "shape \<Rightarrow> node" where
  "shape_node (Operand d) = d"
| "shape_node (Binary opr l r) = Nodes_binaryExpression opr (shape_node l) (shape_node r)"

datatype item = Opd node | Opr tvalue

fun items :: "shape \<Rightarrow> item list" where
  "items (Operand d) = [Opd d]"
| "items (Binary opr l r) = items l @ [Opr opr] @ items r"

definition pair_items :: "(tvalue \<times> node) list \<Rightarrow> item list" where
  "pair_items rest = concat (map (\<lambda>(opr, d). [Opr opr, Opd d]) rest)"

fun shape_power :: "shape \<Rightarrow> nat option" where
  "shape_power (Operand d) = None"
| "shape_power (Binary opr l r) = PRECEDENCE opr"

fun shape_nested :: "shape \<Rightarrow> bool" where
  "shape_nested (Operand d) = True"
| "shape_nested (Binary opr l r) =
     ((case PRECEDENCE opr of
         None \<Rightarrow> False
       | Some p \<Rightarrow>
           (case shape_power l of None \<Rightarrow> True | Some pl \<Rightarrow> p \<le> pl) \<and>
           (case shape_power r of None \<Rightarrow> True | Some pr \<Rightarrow> p < pr)) \<and>
      shape_nested l \<and> shape_nested r)"

text \<open>
  \<open>stops t\<close>: the lookahead \<open>t\<close> is the end of the input or a token that is not an operator
  of the table. \<open>has_power\<close>: the operator of a pair has a binding power. \<open>next_power\<close>: the
  power of the first operator of a list of pairs.
\<close>

definition stops :: "token option \<Rightarrow> bool" where
  "stops t = (case t of None \<Rightarrow> True
              | Some u \<Rightarrow> tok_type u \<noteq> Op \<or> PRECEDENCE (tok_value u) = None)"

definition has_power :: "tvalue \<times> node \<Rightarrow> bool" where
  "has_power od = (PRECEDENCE (fst od) \<noteq> None)"

definition next_power :: "(tvalue \<times> node) list \<Rightarrow> nat option" where
  "next_power rest = (case rest of [] \<Rightarrow> None | od # r \<Rightarrow> PRECEDENCE (fst od))"

text \<open>
  \<open>reads n L rest t\<close>: from the state \<open>L\<close>, the token stream holds the pairs \<open>rest\<close>, each
  an operator token and then an operand as \<open>discrete\<close> reads it with \<open>n\<close> levels of nesting,
  and after them the lookahead is \<open>t\<close>.
\<close>

fun reads :: "nat \<Rightarrow> Luthor \<Rightarrow> (tvalue \<times> node) list \<Rightarrow> token option \<Rightarrow> bool" where
  "reads n L [] t = (case Luthor_peek L of Return t' L1 \<Rightarrow> t' = t | Throw e \<Rightarrow> False)"
| "reads n L (od # rest) t =
     (case Luthor_peek L of
        Return (Some u) L1 \<Rightarrow>
          u = Token Op (fst od) \<and>
          (case discrete (Parsicle n) (L1\<lparr>current := None\<rparr>) of
             Some (Return d L3) \<Rightarrow> d = snd od \<and> reads n L3 rest t
           | _ \<Rightarrow> False)
      | _ \<Rightarrow> False)"

text \<open>
  The nesting by binding powers, computed from the operands and operators in source order
  without looking ahead: \<open>attach sh opr d\<close> adds the operator \<open>opr\<close> and the operand \<open>d\<close> at
  the right end of \<open>sh\<close>. An operator of greater power than the root's takes over the
  root's right operand; any other takes the whole of \<open>sh\<close> as its left operand.
\<close>

fun attach :: "shape \<Rightarrow> tvalue \<Rightarrow> node \<Rightarrow> shape" where
  "attach (Operand x) opr d = Binary opr (Operand x) (Operand d)"
| "attach (Binary o1 l r) opr d =
     (if (case PRECEDENCE o1 of
            None \<Rightarrow> False
          | Some p1 \<Rightarrow> (case PRECEDENCE opr of None \<Rightarrow> False | Some p \<Rightarrow> p1 < p))
      then Binary o1 l (attach r opr d)
      else Binary opr (Binary o1 l r) (Operand d))"

definition nest :: "node \<Rightarrow> (tvalue \<times> node) list \<Rightarrow> shape" where
  "nest d0 rest = foldl (\<lambda>sh od. attach sh (fst od) (snd od)) (Operand d0) rest"

section \<open>Positions in the source text\<close>

text \<open>\<open>advance n S\<close>: the stream \<open>S\<close> after \<open>next()\<close> has been called \<open>n\<close> times.\<close>

fun advance :: "nat \<Rightarrow> CharStream \<Rightarrow> CharStream" where
  "advance 0 S = S"
| "advance (Suc n) S = advance n (snd (CharStream_next S))"

section \<open>Evaluation rules\<close>

text \<open>
  The continuation of \<open>andThen\<close> and \<open>rbind\<close> is looked at only once the first part has
  been evaluated.
\<close>

lemma andThen_weak_cong: "m = m' \<Longrightarrow> andThen m f = andThen m' f" by simp
lemma rbind_weak_cong: "m = m' \<Longrightarrow> rbind m f = rbind m' f" by simp

lemma andThen_simps:
  "andThen None f = None"
  "andThen (Some (Throw e)) f = Some (Throw e)"
  "andThen (Some (Return a s)) f = f a s"
  by (simp_all add: andThen_def)

lemma rbind_simps:
  "rbind (Throw e) f = Throw e"
  "rbind (Return a s) f = f a s"
  by (simp_all add: rbind_def)

lemma Parsicle_numeral:
  "call_expression (Parsicle (numeral k)) = expression (Parsicle (pred_numeral k))"
  "call_parenthetical (Parsicle (numeral k)) = parenthetical (Parsicle (pred_numeral k))"
  "call_block (Parsicle (numeral k)) = block (Parsicle (pred_numeral k))"
  "call_rule (Parsicle (numeral k)) = rule (Parsicle (pred_numeral k))"
  "call_signed (Parsicle (numeral k)) = signed (Parsicle (pred_numeral k))"
  "call_discrete (Parsicle (numeral k)) = discrete (Parsicle (pred_numeral k))"
  "call_delimited (Parsicle (numeral k)) = delimited (Parsicle (pred_numeral k))"
  "call_delimited_loop (Parsicle (numeral k)) = delimited_loop (Parsicle (pred_numeral k))"
  "call_handleInvocation (Parsicle (numeral k)) = handleInvocation (Parsicle (pred_numeral k))"
  "call_resolveOperatorBindings (Parsicle (numeral k)) =
     resolveOperatorBindings (Parsicle (pred_numeral k))"
  by (simp_all add: numeral_eq_Suc Parsicle.simps Let_def)

lemma parse_loop_numeral:
  "parse_loop P (numeral k) ast L =
     andThen (Some (Luthor_eof L)) (\<lambda>at_end L1.
     if at_end then Some (Return ast L1)
     else
     andThen (call_expression P L1) (\<lambda>x L2.
     andThen (Some (Luthor_eof L2)) (\<lambda>at_end1 L3.
     andThen (if \<not> at_end1 then Some (expectPunc '';'' L3) else Some (Return None L3)) (\<lambda>_ L4.
     parse_loop P (pred_numeral k) (ast @ [x]) L4))))"
  by (simp add: numeral_eq_Suc)

lemma Parsicle_calls:
  "call_expression (Parsicle (Suc n)) = expression (Parsicle n)"
  "call_parenthetical (Parsicle (Suc n)) = parenthetical (Parsicle n)"
  "call_block (Parsicle (Suc n)) = block (Parsicle n)"
  "call_rule (Parsicle (Suc n)) = rule (Parsicle n)"
  "call_signed (Parsicle (Suc n)) = signed (Parsicle n)"
  "call_discrete (Parsicle (Suc n)) = discrete (Parsicle n)"
  "call_delimited (Parsicle (Suc n)) = delimited (Parsicle n)"
  "call_delimited_loop (Parsicle (Suc n)) = delimited_loop (Parsicle n)"
  "call_handleInvocation (Parsicle (Suc n)) = handleInvocation (Parsicle n)"
  "call_resolveOperatorBindings (Parsicle (Suc n)) = resolveOperatorBindings (Parsicle n)"
  by (simp_all add: Parsicle.simps Let_def)

lemma Parsicle_one:
  "call_expression (Parsicle 1) = expression (Parsicle 0)"
  "call_parenthetical (Parsicle 1) = parenthetical (Parsicle 0)"
  "call_block (Parsicle 1) = block (Parsicle 0)"
  "call_rule (Parsicle 1) = rule (Parsicle 0)"
  "call_signed (Parsicle 1) = signed (Parsicle 0)"
  "call_discrete (Parsicle 1) = discrete (Parsicle 0)"
  "call_delimited (Parsicle 1) = delimited (Parsicle 0)"
  "call_delimited_loop (Parsicle 1) = delimited_loop (Parsicle 0)"
  "call_handleInvocation (Parsicle 1) = handleInvocation (Parsicle 0)"
  "call_resolveOperatorBindings (Parsicle 1) = resolveOperatorBindings (Parsicle 0)"
  by (simp_all add: Parsicle.simps Let_def)

lemma Parsicle_zero:
  "call_expression (Parsicle 0) L = None"
  "call_parenthetical (Parsicle 0) L = None"
  "call_block (Parsicle 0) L = None"
  "call_rule (Parsicle 0) L = None"
  "call_signed (Parsicle 0) L = None"
  "call_discrete (Parsicle 0) L = None"
  "call_delimited (Parsicle 0) start stop separator parserFn L = None"
  "call_delimited_loop (Parsicle 0) stop separator parserFn first body L = None"
  "call_handleInvocation (Parsicle 0) nd L = None"
  "call_resolveOperatorBindings (Parsicle 0) leftNode thisPrecedence L = None"
  by (simp_all add: Parsicle.simps)

lemma parse_loop_one:
  "parse_loop P 1 ast L = parse_loop P (Suc 0) ast L"
  by simp

lemmas lex_eval =
  new_CharStream_def stringPeek_def CharStream_next_def CharStream_eof_def CharStream_die_def
  isWhiteSpace_def isComment_def isNotEOL_def isStringBoundary_def isDigit_def
  isStartOfIdentifier_def isIdentifier_def isPunctuation_def isOperator_def Keywords_def
  isKeyword_def readWhile.simps skipRestOfLine_def readNumber_loop.simps digit_val_def
  digits_val_def parseFloat_def readNumber_def readIdentifier_def readString_loop.simps
  readString_def readOperator_def Tokens_string_def Tokens_numeric_def Tokens_identifier_def
  Tokens_keyword_def Tokens_operator_def Tokens_punctuation_def char_string_def
  readNextToken.simps new_Luthor_def Luthor_peek_def Luthor_next_def Luthor_eof_def
  Luthor_die_def

lemmas parse_eval =
  checkTypeAndValue_def isPunc_def isOp_def isId_def isKw_def isOneOfType_def
  PRECEDENCE_table_def PRECEDENCE_def Nodes_blockStatement_def Nodes_invocation_def
  Nodes_rule_def Nodes_binaryExpression_def node_of_def rbind_simps expectIdentifier_def
  expectOps_def expectPunc_def Parsicle_die_def andThen_simps
  expression_def parenthetical_def block_def rule_def signed_def discrete_def delimited_def
  delimited_loop_def handleInvocation_def resolveOperatorBindings_def
  Parsicle_numeral Parsicle_calls Parsicle_one Parsicle_zero parse_loop_numeral parse_loop_one
  parse_loop.simps parse_def outcome_def Parsicle_parse_def

section \<open>More nesting never changes a result\<close>

lemma le_opt_refl: "le_opt a a"
  by (simp add: le_opt_def)

lemma le_opt_None: "le_opt None a"
  by (simp add: le_opt_def)

lemma le_opt_trans: "le_opt a b \<Longrightarrow> le_opt b c \<Longrightarrow> le_opt a c"
  by (auto simp: le_opt_def)

lemma le_opt_andThen:
  "le_opt m m' \<Longrightarrow> (\<And>a s. le_opt (f a s) (f' a s)) \<Longrightarrow> le_opt (andThen m f) (andThen m' f')"
  by (auto simp: le_opt_def andThen_def split: option.splits result.splits)

lemma expression_mono: "extends P Q \<Longrightarrow> le_opt (expression P L) (expression Q L)"
  unfolding expression_def
  by (intro le_opt_andThen) (simp_all add: extends_def)

lemma parenthetical_mono: "extends P Q \<Longrightarrow> le_opt (parenthetical P L) (parenthetical Q L)"
  unfolding parenthetical_def
  by (intro le_opt_andThen le_opt_refl) (simp_all add: extends_def)

lemma block_mono: "extends P Q \<Longrightarrow> le_opt (block P L) (block Q L)"
  unfolding block_def
  by (intro le_opt_andThen le_opt_refl) (simp_all add: extends_def)

lemma rule_mono: "extends P Q \<Longrightarrow> le_opt (rule P L) (rule Q L)"
  unfolding rule_def
  by (auto intro!: le_opt_andThen le_opt_refl simp: extends_def)

lemma signed_mono: "extends P Q \<Longrightarrow> le_opt (signed P L) (signed Q L)"
  unfolding signed_def
  by (auto intro!: le_opt_andThen le_opt_refl simp: extends_def split: sum.splits option.splits)

lemma discrete_mono: "extends P Q \<Longrightarrow> le_opt (discrete P L) (discrete Q L)"
  unfolding discrete_def
  by (auto intro!: le_opt_andThen le_opt_refl simp: extends_def split: sum.splits bool.splits)

lemma delimited_mono:
  "extends P Q \<Longrightarrow> le_opt (delimited P a b c d L) (delimited Q a b c d L)"
  unfolding delimited_def
  by (auto intro!: le_opt_andThen le_opt_refl simp: extends_def)

lemma delimited_loop_mono:
  "extends P Q \<Longrightarrow> le_opt (delimited_loop P a b c d e L) (delimited_loop Q a b c d e L)"
  unfolding delimited_loop_def
  by (auto intro!: le_opt_andThen le_opt_refl simp: extends_def split: parserFn.splits)

lemma handleInvocation_mono:
  "extends P Q \<Longrightarrow> le_opt (handleInvocation P nd L) (handleInvocation Q nd L)"
  unfolding handleInvocation_def
  by (auto intro!: le_opt_andThen le_opt_refl simp: extends_def)

lemma resolveOperatorBindings_mono:
  "extends P Q \<Longrightarrow> le_opt (resolveOperatorBindings P nd p L) (resolveOperatorBindings Q nd p L)"
  unfolding resolveOperatorBindings_def
  by (auto intro!: le_opt_andThen le_opt_refl simp: extends_def split: option.splits)

lemma extends_refl: "extends P P"
  by (simp add: extends_def le_opt_refl)

lemma extends_trans: "extends P Q \<Longrightarrow> extends Q R \<Longrightarrow> extends P R"
  unfolding extends_def by (meson le_opt_trans)

lemma Parsicle_extends_Suc: "extends (Parsicle n) (Parsicle (Suc n))"
proof (induction n)
  case 0
  show ?case by (simp add: extends_def Parsicle.simps(1) le_opt_None)
next
  case (Suc n)
  show ?case
    unfolding extends_def Parsicle_calls
    using Suc
    by (simp add: expression_mono parenthetical_mono block_mono rule_mono signed_mono
        discrete_mono delimited_mono delimited_loop_mono handleInvocation_mono
        resolveOperatorBindings_mono)
qed

lemma Parsicle_extends: "extends (Parsicle n) (Parsicle (n + k))"
proof (induction k)
  case 0
  show ?case by (simp add: extends_refl)
next
  case (Suc k)
  then show ?case using Parsicle_extends_Suc [of "n + k"] by (auto intro: extends_trans)
qed

lemma parse_loop_mono:
  "extends P Q \<Longrightarrow> le_opt (parse_loop P k ast L) (parse_loop Q (k + j) ast L)"
proof (induction k arbitrary: ast L)
  case 0
  show ?case by (simp add: le_opt_None)
next
  case (Suc k)
  show ?case
    using Suc.prems
    by (auto intro!: le_opt_andThen le_opt_refl Suc.IH simp: extends_def)
qed

lemma parse_mono: "le_opt (parse n L) (parse (n + k) L)"
  unfolding parse_def
  using Parsicle_extends [of n k]
  by (auto intro!: le_opt_andThen parse_loop_mono simp: extends_def)

lemma Parsicle_parse_mono:
  "Parsicle_parse n content = Some r \<Longrightarrow> Parsicle_parse (n + k) content = Some r"
  using parse_mono [of n "new_Luthor (new_CharStream content)" k]
  by (auto simp: Parsicle_parse_def outcome_def le_opt_def)

section \<open>The program grammar\<close>

text \<open>
  Claim C1. \<open>parse()\<close> is to implement \<open>program := expression (";" expression)* [";"]\<close>:
  expressions separated by \<open>;\<close> come back as one node each, in source order. The code does
  not: \<open>parse\<close> reads its second expression straight after the first, without asking for the
  separator, so in \<open>a; b\<close> the \<open>;\<close> is taken for the start of an expression and the parse dies
  with "Unexpected token" after the two characters \<open>a;\<close>. This holds however deep the
  parser may nest.
\<close>

theorem parse_semicolon_after_first_expression_fails:
  "Parsicle_parse (4 + k) ''a; b'' =
     Some (Inl (IllegalSyntaxError 1 2 (UnexpectedToken (Some (Token Punc (SV '';''))))))"
proof -
  have "Parsicle_parse 4 ''a; b'' =
     Some (Inl (IllegalSyntaxError 1 2 (UnexpectedToken (Some (Token Punc (SV '';''))))))"
    by (simp add: lex_eval parse_eval del: One_nat_def cong: andThen_weak_cong rbind_weak_cong)
  then show ?thesis by (rule Parsicle_parse_mono)
qed

text \<open>
  What the loop does accept: no separator between the first two expressions, and one after
  each later expression that is not the last.
\<close>

lemma parse_without_first_separator:
  "Parsicle_parse (4 + k) ''a b; c;'' =
     Some (Inr [Leaf (Token Id (SV ''a'')), Leaf (Token Id (SV ''b'')), Leaf (Token Id (SV ''c''))])"
proof -
  have "Parsicle_parse 4 ''a b; c;'' =
     Some (Inr [Leaf (Token Id (SV ''a'')), Leaf (Token Id (SV ''b'')), Leaf (Token Id (SV ''c''))])"
    by (simp add: lex_eval parse_eval del: One_nat_def cong: andThen_weak_cong rbind_weak_cong)
  then show ?thesis by (rule Parsicle_parse_mono)
qed

section \<open>String literals\<close>

text \<open>
  Claim C2. The value of a string token is to be exactly the characters between the two
  boundaries. The code drops the first of them: \<open>readNextToken\<close> advances past the opening
  boundary and \<open>readString\<close> advances once more before its loop. The five characters
  \<open>"abc"\<close> give the token \<open>bc\<close>.
\<close>

theorem readString_drops_first_character:
  "readNextToken (new_CharStream [CHR 0x22, CHR ''a'', CHR ''b'', CHR ''c'', CHR 0x22]) =
     Return (Some (Token Str (SV ''bc'')))
       \<lparr>input = [CHR 0x22, CHR ''a'', CHR ''b'', CHR ''c'', CHR 0x22], pos = 5, line = 1, col = 5\<rparr>"
  by (simp add: lex_eval del: One_nat_def)

section \<open>Rule declarations\<close>

text \<open>
  Claim C3, as stated: \<open>rule foo(a, b) { a + b }\<close> parses to a rule whose \<open>params\<close> are the
  strings \<open>"a"\<close> and \<open>"b"\<close>. It does not: \<open>delimited\<close> collects what \<open>expectIdentifier\<close>
  returns, which are the identifier tokens.
\<close>

theorem rule_params_are_not_strings:
  "Parsicle_parse 12 ''rule foo(a, b) { a + b }'' \<noteq>
     Some (Inr [Rule (Some (SV ''foo'')) [Lit (SV ''a''), Lit (SV ''b'')]
                 (BinaryExpression (SV ''+'') (Leaf (Token Id (SV ''a'')))
                    (Leaf (Token Id (SV ''b''))))])"
  by (simp add: lex_eval parse_eval del: One_nat_def cong: andThen_weak_cong rbind_weak_cong)

text \<open>
  Claim C3, amended: \<open>rule foo(a, b) { a + b }\<close> parses to one rule node whose name is the
  string \<open>foo\<close>, whose parameters are the identifier tokens \<open>a\<close> and \<open>b\<close> in declaration
  order, and whose body is the binary expression \<open>a + b\<close> itself, not a block around it.
\<close>

theorem rule_declaration_example:
  "Parsicle_parse (12 + k) ''rule foo(a, b) { a + b }'' =
     Some (Inr [Rule (Some (SV ''foo''))
                 [Leaf (Token Id (SV ''a'')), Leaf (Token Id (SV ''b''))]
                 (BinaryExpression (SV ''+'') (Leaf (Token Id (SV ''a'')))
                    (Leaf (Token Id (SV ''b''))))])"
proof -
  have "Parsicle_parse 12 ''rule foo(a, b) { a + b }'' =
     Some (Inr [Rule (Some (SV ''foo''))
                 [Leaf (Token Id (SV ''a'')), Leaf (Token Id (SV ''b''))]
                 (BinaryExpression (SV ''+'') (Leaf (Token Id (SV ''a'')))
                    (Leaf (Token Id (SV ''b''))))])"
    by (simp add: lex_eval parse_eval del: One_nat_def cong: andThen_weak_cong rbind_weak_cong)
  then show ?thesis by (rule Parsicle_parse_mono)
qed

lemma advance_numeral:
  "advance (numeral n) S = advance (pred_numeral n) (snd (CharStream_next S))"
  by (simp add: numeral_eq_Suc)

lemma advance_one: "advance 1 S = advance 0 (snd (CharStream_next S))"
  by simp

text \<open>
  Claim C7, as stated: the syntax error for \<open>rule foo {\<close> carries the position of the
  \<open>{\<close>. It does not. The \<open>{\<close> is under the cursor once nine characters have been read,
  at line 1, column 9; the error is raised when the \<open>{\<close> has been read as the lookahead
  token, and carries the cursor of that moment.
\<close>

theorem rule_error_not_at_the_brace:
  "stringPeek (advance 9 (new_CharStream ''rule foo {'')) = Some (CHR ''{'') \<and>
   Parsicle_parse 4 ''rule foo {'' \<noteq>
     Some (Inl (IllegalSyntaxError
                  (line (advance 9 (new_CharStream ''rule foo {'')))
                  (col (advance 9 (new_CharStream ''rule foo {'')))
                  (Text ''Missing argument list for rule declaration'')))"
  by (simp add: lex_eval parse_eval advance_numeral advance_one del: One_nat_def
      cong: andThen_weak_cong rbind_weak_cong)

text \<open>
  Claim C7, amended: \<open>rule foo {\<close> fails with the syntax error "Missing argument list for
  rule declaration", whose line and column are those of the cursor just past the \<open>{\<close>,
  line 1, column 10, the \<open>{\<close> itself being at line 1, column 9. The result is the error
  alone, with no tree, however deep the parser may nest.
\<close>

theorem rule_without_argument_list:
  "Parsicle_parse (4 + k) ''rule foo {'' =
     Some (Inl (IllegalSyntaxError
                  (line (advance 10 (new_CharStream ''rule foo {'')))
                  (col (advance 10 (new_CharStream ''rule foo {'')))
                  (Text ''Missing argument list for rule declaration''))) \<and>
   line (advance 10 (new_CharStream ''rule foo {'')) = 1 \<and>
   col (advance 10 (new_CharStream ''rule foo {'')) = 10 \<and>
   stringPeek (advance 9 (new_CharStream ''rule foo {'')) = Some (CHR ''{'') \<and>
   line (advance 9 (new_CharStream ''rule foo {'')) = 1 \<and>
   col (advance 9 (new_CharStream ''rule foo {'')) = 9"
proof -
  have pos:
    "line (advance 10 (new_CharStream ''rule foo {'')) = 1 \<and>
     col (advance 10 (new_CharStream ''rule foo {'')) = 10 \<and>
     stringPeek (advance 9 (new_CharStream ''rule foo {'')) = Some (CHR ''{'') \<and>
     line (advance 9 (new_CharStream ''rule foo {'')) = 1 \<and>
     col (advance 9 (new_CharStream ''rule foo {'')) = 9"
    by (simp add: lex_eval advance_numeral advance_one del: One_nat_def)
  have "Parsicle_parse 4 ''rule foo {'' =
     Some (Inl (IllegalSyntaxError 1 10 (Text ''Missing argument list for rule declaration'')))"
    by (simp add: lex_eval parse_eval del: One_nat_def cong: andThen_weak_cong rbind_weak_cong)
  then have "Parsicle_parse (4 + k) ''rule foo {'' =
     Some (Inl (IllegalSyntaxError 1 10 (Text ''Missing argument list for rule declaration'')))"
    by (rule Parsicle_parse_mono)
  with pos show ?thesis by simp
qed

section \<open>Numbers\<close>

text \<open>
  Claim C4, as stated: after the number \<open>3.14\<close> of \<open>3.14.15\<close> the lexer yields a token for
  the second dot. It does not: no branch of \<open>readNextToken\<close> accepts a dot, and the read
  after the number fails.
\<close>

theorem second_dot_is_an_illegal_character:
  "readNextToken (new_CharStream ''3.14.15'') =
     Return (Some (Token Num (NV (314 / 100))))
       \<lparr>input = ''3.14.15'', pos = 4, line = 1, col = 4\<rparr> \<and>
   readNextToken \<lparr>input = ''3.14.15'', pos = 4, line = 1, col = 4\<rparr> =
     Throw (IllegalSyntaxError 1 4 (Text ''Illegal character at this position: .''))"
  by (simp add: lex_eval del: One_nat_def)

text \<open>
  Claim C4, amended: the token stream of \<open>3.14\<close> is the number 3.14 and then the end; the
  token stream of \<open>3.14.15\<close> starts with the number 3.14, which leaves the second dot
  unread, and its next read fails with "Illegal character at this position: ." at line 1,
  column 4.
\<close>

theorem number_token_stops_at_second_dot:
  "Luthor_next (new_Luthor (new_CharStream ''3.14'')) =
     Return (Some (Token Num (NV (314 / 100))))
       \<lparr>current = None, stream = \<lparr>input = ''3.14'', pos = 4, line = 1, col = 4\<rparr>\<rparr> \<and>
   Luthor_next \<lparr>current = None, stream = \<lparr>input = ''3.14'', pos = 4, line = 1, col = 4\<rparr>\<rparr> =
     Return None
       \<lparr>current = None, stream = \<lparr>input = ''3.14'', pos = 4, line = 1, col = 4\<rparr>\<rparr> \<and>
   Luthor_next (new_Luthor (new_CharStream ''3.14.15'')) =
     Return (Some (Token Num (NV (314 / 100))))
       \<lparr>current = None, stream = \<lparr>input = ''3.14.15'', pos = 4, line = 1, col = 4\<rparr>\<rparr> \<and>
   stringPeek \<lparr>input = ''3.14.15'', pos = 4, line = 1, col = 4\<rparr> = Some (CHR ''.'') \<and>
   Luthor_next \<lparr>current = None, stream = \<lparr>input = ''3.14.15'', pos = 4, line = 1, col = 4\<rparr>\<rparr> =
     Throw (IllegalSyntaxError 1 4 (Text ''Illegal character at this position: .''))"
  by (simp add: lex_eval del: One_nat_def)

section \<open>The token stream's lookahead\<close>

lemma readWhile_at_end: "stringPeek S = None \<Longrightarrow> readWhile p str S = (str, S)"
  by (simp add: readWhile.simps [of p str S])

lemma readNextToken_None_at_end:
  "readNextToken S = Return None S' \<Longrightarrow> stringPeek S' = None"
proof (induction S rule: readNextToken.induct)
  case (1 stream)
  let ?s1 = "snd (readWhile isWhiteSpace [] stream)"
  note unfold = readNextToken.simps [of stream]
  show ?case
  proof (cases "stringPeek ?s1")
    case None
    with "1.prems" show ?thesis by (simp add: unfold Let_def)
  next
    case (Some ch)
    show ?thesis
    proof (cases "isComment ch")
      case True
      with Some "1.prems" have "readNextToken (skipRestOfLine ?s1) = Return None S'"
        by (simp add: unfold Let_def)
      with "1.IH" [OF refl Some True] show ?thesis .
    next
      case False
      with Some "1.prems" show ?thesis
        by (simp add: unfold Let_def split: if_splits prod.splits)
    qed
  qed
qed

lemma readNextToken_at_end: "stringPeek S = None \<Longrightarrow> readNextToken S = Return None S"
  by (simp add: readNextToken.simps [of S] readWhile_at_end Let_def)

text \<open>
  Claim C9. In every state of the token stream: when \<open>peek()\<close> returns, what it returned is
  the one cached lookahead; a second \<open>peek()\<close> returns the same and leaves the state as it
  is; \<open>next()\<close> returns the same and empties the cache; and \<open>eof()\<close> returns whether
  \<open>peek()\<close> returned the end marker. When \<open>peek()\<close> throws, so does \<open>eof()\<close>.
\<close>

theorem Luthor_lookahead:
  "(Luthor_peek L = Return t L1 \<longrightarrow>
      current L1 = t \<and>
      Luthor_peek L1 = Return t L1 \<and>
      Luthor_next L1 = Return t (L1\<lparr>current := None\<rparr>) \<and>
      Luthor_eof L = Return (t = None) L1) \<and>
   (Luthor_peek L = Throw e \<longrightarrow> Luthor_eof L = Throw e)"
proof (intro conjI impI)
  assume pk: "Luthor_peek L = Return t L1"
  show "Luthor_eof L = Return (t = None) L1"
    using pk by (simp add: Luthor_eof_def)
  show cur: "current L1 = t"
    using pk by (auto simp: Luthor_peek_def split: option.splits result.splits)
  have again: "t = None \<Longrightarrow> readNextToken (stream L1) = Return None (stream L1)"
  proof -
    assume "t = None"
    with pk obtain s where "readNextToken (stream L) = Return None s" and "stream L1 = s"
      by (auto simp: Luthor_peek_def split: option.splits result.splits)
    then show ?thesis
      using readNextToken_None_at_end readNextToken_at_end by blast
  qed
  show "Luthor_peek L1 = Return t L1"
  proof (cases t)
    case None
    with cur again show ?thesis by (simp add: Luthor_peek_def)
  next
    case (Some tok)
    with cur show ?thesis by (simp add: Luthor_peek_def)
  qed
  show "Luthor_next L1 = Return t (L1\<lparr>current := None\<rparr>)"
  proof (cases t)
    case None
    with cur again show ?thesis by (simp add: Luthor_next_def)
  next
    case (Some tok)
    with cur show ?thesis by (simp add: Luthor_next_def)
  qed
next
  assume "Luthor_peek L = Throw e"
  then show "Luthor_eof L = Throw e" by (simp add: Luthor_eof_def)
qed

text \<open>The token stream of \<open>a b\<close>, before and after its first \<open>peek()\<close>.\<close>

theorem Luthor_lookahead_witness:
  "Luthor_peek (new_Luthor (new_CharStream ''a b'')) =
     Return (Some (Token Id (SV ''a'')))
       \<lparr>current = Some (Token Id (SV ''a'')),
          stream = \<lparr>input = ''a b'', pos = 1, line = 1, col = 1\<rparr>\<rparr> \<and>
   Luthor_peek \<lparr>current = Some (Token Id (SV ''a'')),
                 stream = \<lparr>input = ''a b'', pos = 1, line = 1, col = 1\<rparr>\<rparr> =
     Return (Some (Token Id (SV ''a'')))
       \<lparr>current = Some (Token Id (SV ''a'')),
          stream = \<lparr>input = ''a b'', pos = 1, line = 1, col = 1\<rparr>\<rparr> \<and>
   Luthor_next \<lparr>current = Some (Token Id (SV ''a'')),
                 stream = \<lparr>input = ''a b'', pos = 1, line = 1, col = 1\<rparr>\<rparr> =
     Return (Some (Token Id (SV ''a'')))
       \<lparr>current = None, stream = \<lparr>input = ''a b'', pos = 1, line = 1, col = 1\<rparr>\<rparr> \<and>
   Luthor_eof (new_Luthor (new_CharStream ''a b'')) =
     Return False
       \<lparr>current = Some (Token Id (SV ''a'')),
          stream = \<lparr>input = ''a b'', pos = 1, line = 1, col = 1\<rparr>\<rparr>"
proof -
  have pk: "Luthor_peek (new_Luthor (new_CharStream ''a b'')) =
     Return (Some (Token Id (SV ''a'')))
       \<lparr>current = Some (Token Id (SV ''a'')),
          stream = \<lparr>input = ''a b'', pos = 1, line = 1, col = 1\<rparr>\<rparr>"
    by (simp add: lex_eval del: One_nat_def)
  show ?thesis
    using pk Luthor_lookahead [of "new_Luthor (new_CharStream ''a b'')"
        "Some (Token Id (SV ''a''))"
        "\<lparr>current = Some (Token Id (SV ''a'')),
           stream = \<lparr>input = ''a b'', pos = 1, line = 1, col = 1\<rparr>\<rparr>"]
    by simp
qed

section \<open>Strings that never close\<close>

lemma drop_Cons_peek:
  "drop (pos S) (input S) = ch # cs \<Longrightarrow> stringPeek S = Some ch"
proof -
  assume a: "drop (pos S) (input S) = ch # cs"
  then have lt: "pos S < length (input S)"
    by (cases "pos S < length (input S)") auto
  with a have "input S ! pos S = ch"
    using hd_drop_conv_nth [of "pos S" "input S"] by simp
  with lt show ?thesis by (simp add: stringPeek_def)
qed

lemma drop_Nil_peek: "drop (pos S) (input S) = [] \<Longrightarrow> stringPeek S = None"
  by (simp add: stringPeek_def)

lemma drop_Cons_next:
  "drop (pos S) (input S) = ch # cs \<Longrightarrow>
   drop (pos (snd (CharStream_next S))) (input (snd (CharStream_next S))) = cs"
proof -
  assume a: "drop (pos S) (input S) = ch # cs"
  have "drop (Suc (pos S)) (input S) = tl (drop (pos S) (input S))"
    by (simp add: drop_Suc tl_drop)
  with a show ?thesis by (simp add: CharStream_next_def Let_def)
qed

lemma readString_loop_unterminated:
  "drop (pos S) (input S) = content \<Longrightarrow> \<not> spec_closed escaped content \<Longrightarrow>
   fst (readString_loop escaped str S) = str @ spec_accumulated escaped content \<and>
   stringPeek (snd (readString_loop escaped str S)) = None"
proof (induction content arbitrary: S escaped str)
  case Nil
  then show ?case
    by (simp add: readString_loop.simps [of _ str S] drop_Nil_peek)
next
  case (Cons ch cs)
  note unfold = readString_loop.simps [of _ str S]
  have pk: "stringPeek S = Some ch" using Cons.prems(1) by (rule drop_Cons_peek)
  have nx: "drop (pos (snd (CharStream_next S))) (input (snd (CharStream_next S))) = cs"
    using Cons.prems(1) by (rule drop_Cons_next)
  show ?case
  proof (cases escaped)
    case True
    with Cons.prems(2) have "\<not> spec_closed False cs" by simp
    from Cons.IH [OF nx this, of "str @ [ch]"] True pk show ?thesis
      by (simp add: unfold Let_def)
  next
    case False
    show ?thesis
    proof (cases "ch = CHR 0x5C")
      case True
      with False Cons.prems(2) have "\<not> spec_closed True cs" by simp
      from Cons.IH [OF nx this, of str] False True pk show ?thesis
        by (simp add: unfold Let_def)
    next
      case notbs: False
      with False Cons.prems(2) have nb: "ch \<noteq> CHR 0x22" and "\<not> spec_closed False cs"
        by (auto split: if_splits)
      from Cons.IH [OF nx this(2), of "str @ [ch]"] False notbs nb pk show ?thesis
        by (simp add: unfold Let_def isStringBoundary_def)
    qed
  qed
qed

lemma readString_from_unterminated:
  assumes "drop (Suc (pos S)) (input S) = content" and "\<not> spec_closed False content"
  shows "fst (readString S) = spec_accumulated False content \<and>
         CharStream_eof (snd (readString S))"
proof -
  have "drop (pos (snd (CharStream_next S))) (input (snd (CharStream_next S))) = content"
    using assms(1) by (simp add: CharStream_next_def Let_def)
  from readString_loop_unterminated [OF this assms(2), of "[]"] show ?thesis
    by (simp add: readString_def CharStream_eof_def)
qed

lemma readNextToken_string:
  "readNextToken (new_CharStream (CHR 0x22 # cs)) =
     Return (Some (Token Str (SV (fst (readString \<lparr>input = CHR 0x22 # cs, pos = 1, line = 1, col = 1\<rparr>)))))
       (snd (readString \<lparr>input = CHR 0x22 # cs, pos = 1, line = 1, col = 1\<rparr>))"
proof -
  let ?S = "new_CharStream (CHR 0x22 # cs)"
  have pk: "stringPeek ?S = Some (CHR 0x22)"
    by (simp add: new_CharStream_def stringPeek_def)
  then have ws: "readWhile isWhiteSpace [] ?S = ([], ?S)"
    by (simp add: readWhile.simps [of _ _ ?S] isWhiteSpace_def)
  have nx: "snd (CharStream_next ?S) = \<lparr>input = CHR 0x22 # cs, pos = 1, line = 1, col = 1\<rparr>"
    by (simp add: CharStream_next_def Let_def new_CharStream_def stringPeek_def)
  show ?thesis
    by (simp add: readNextToken.simps [of ?S] ws pk nx Let_def isComment_def isStringBoundary_def
        Tokens_string_def split: prod.splits)
qed

text \<open>
  Claim C8. Where no unescaped boundary character follows a literal's opening boundary,
  the string-reading loop is to run until the input is exhausted and the token is to hold
  the characters accumulated. The code does not do so for every such input: since
  \<open>readString\<close> steps over one character more than the boundary (the defect of claim C2),
  a backslash in first place is lost, and the boundary character it escapes ends the loop.
  Whatever \<open>rest\<close> follows the three characters \<open>"\"\<close>, the lexer returns the empty string
  token with \<open>rest\<close> unread, while in the specification's reading the literal is closed only
  if \<open>rest\<close> closes it, and accumulates the boundary character and then what \<open>rest\<close>
  gives. For the four characters \<open>"\"a\<close> the literal is not closed, and the \<open>a\<close> is left
  in the input. The four characters \<open>"abc\<close> give the token \<open>bc\<close>.
\<close>

theorem readString_stops_at_escaped_boundary:
  "readNextToken (new_CharStream (CHR 0x22 # CHR 0x5C # CHR 0x22 # rest)) =
     Return (Some (Token Str (SV [])))
       \<lparr>input = CHR 0x22 # CHR 0x5C # CHR 0x22 # rest, pos = 3, line = 1, col = 3\<rparr> \<and>
   spec_closed False (CHR 0x5C # CHR 0x22 # rest) = spec_closed False rest \<and>
   spec_accumulated False (CHR 0x5C # CHR 0x22 # rest) = CHR 0x22 # spec_accumulated False rest \<and>
   \<not> spec_closed False [CHR 0x5C, CHR 0x22, CHR ''a''] \<and>
   spec_accumulated False [CHR 0x5C, CHR 0x22, CHR ''a''] = [CHR 0x22, CHR ''a''] \<and>
   stringPeek \<lparr>input = [CHR 0x22, CHR 0x5C, CHR 0x22, CHR ''a''], pos = 3, line = 1, col = 3\<rparr> =
     Some (CHR ''a'') \<and>
   \<not> spec_closed False ''abc'' \<and>
   spec_accumulated False ''abc'' = ''abc'' \<and>
   readNextToken (new_CharStream (CHR 0x22 # ''abc'')) =
     Return (Some (Token Str (SV ''bc'')))
       \<lparr>input = CHR 0x22 # ''abc'', pos = 4, line = 1, col = 4\<rparr>"
proof -
  let ?S = "new_CharStream (CHR 0x22 # CHR 0x5C # CHR 0x22 # rest)"
  let ?S3 = "\<lparr>input = CHR 0x22 # CHR 0x5C # CHR 0x22 # rest, pos = 3, line = 1, col = 3\<rparr>"
  have "readString \<lparr>input = CHR 0x22 # CHR 0x5C # CHR 0x22 # rest, pos = 1, line = 1, col = 1\<rparr> =
      ([], ?S3)"
    by (simp add: readString_def CharStream_next_def stringPeek_def Let_def
        readString_loop.simps [of False "[]"] isStringBoundary_def del: One_nat_def)
  then have general: "readNextToken ?S = Return (Some (Token Str (SV []))) ?S3"
    using readNextToken_string [of "CHR 0x5C # CHR 0x22 # rest"] by simp
  have concrete: "readNextToken (new_CharStream (CHR 0x22 # ''abc'')) =
     Return (Some (Token Str (SV ''bc'')))
       \<lparr>input = CHR 0x22 # ''abc'', pos = 4, line = 1, col = 4\<rparr>"
    by (simp add: lex_eval del: One_nat_def)
  have peek: "stringPeek
      \<lparr>input = [CHR 0x22, CHR 0x5C, CHR 0x22, CHR ''a''], pos = 3, line = 1, col = 3\<rparr> =
     Some (CHR ''a'')"
    by (simp add: stringPeek_def)
  from general concrete peek show ?thesis by simp
qed

section \<open>No \<open>bool\<close> node is ever built\<close>

lemma ok_simps:
  "ok Q None = True"
  "ok Q (Some (Throw e)) = True"
  "ok Q (Some (Return a s)) = Q a"
  by (simp_all add: ok_def)

lemma ok_andThen:
  assumes "ok Q' m" and "\<And>a s. Q' a \<Longrightarrow> ok Q (f a s)"
  shows "ok Q (andThen m f)"
proof (cases m)
  case None
  then show ?thesis by (simp add: andThen_def ok_def)
next
  case (Some r)
  show ?thesis
  proof (cases r)
    case (Return a s)
    with Some assms(1) have "Q' a" by (simp add: ok_def)
    from assms(2) [OF this, of s] Some Return show ?thesis by (simp add: andThen_def)
  next
    case (Throw e)
    with Some show ?thesis by (simp add: andThen_def ok_def)
  qed
qed

lemma ok_andThen_any: "(\<And>a s. ok Q (f a s)) \<Longrightarrow> ok Q (andThen m f)"
  by (rule ok_andThen [where Q' = "\<lambda>_. True"]) (simp_all add: ok_def split: option.splits result.splits)

lemmas ok_andThen_nb = ok_andThen [where Q' = nb]
lemmas ok_andThen_nbs = ok_andThen [where Q' = nbs]
lemmas ok_andThen_tok = ok_andThen_any [where 'a = "token option"]
lemmas ok_andThen_bool = ok_andThen_any [where 'a = bool]
lemmas ok_andThen_name = ok_andThen_any [where 'a = "tvalue option"]

lemmas ok_binds =
  ok_andThen_nb ok_andThen_nbs ok_andThen_tok ok_andThen_bool ok_andThen_name

lemma no_bool_callsD:
  assumes "no_bool_calls P"
  shows "ok nb (call_expression P L)"
    and "ok nb (call_parenthetical P L)"
    and "ok nb (call_block P L)"
    and "ok nb (call_rule P L)"
    and "ok nb (call_signed P L)"
    and "ok nb (call_discrete P L)"
    and "ok nbs (call_delimited P start stop sep pf L)"
    and "nbs body \<Longrightarrow> ok nbs (call_delimited_loop P stop sep pf first body L)"
    and "nb x \<Longrightarrow> ok nb (call_handleInvocation P x L)"
    and "nb x \<Longrightarrow> ok nb (call_resolveOperatorBindings P x p L)"
  using assms by (simp_all add: no_bool_calls_def)

lemma nb_simps:
  "nb (node_of t)"
  "nb (Nodes_binaryExpression op l r) = (nb l \<and> nb r)"
  "nb (Nodes_invocation f args) = (nb f \<and> nbs args)"
  "nb (Nodes_rule name args body) = (nbs args \<and> nb body)"
  "nb (Nodes_blockStatement nds) = nbs nds"
  "nb (Lit v)"
  "nbs []"
  "nbs (nds @ [x]) = (nbs nds \<and> nb x)"
  "nbs [x] = nb x"
  by (auto simp: nb_def nbs_def node_of_def Nodes_binaryExpression_def Nodes_invocation_def
      Nodes_rule_def Nodes_blockStatement_def split: option.splits)

lemma ok_Parsicle_die: "ok Q (Some (Parsicle_die L))"
  by (simp add: Parsicle_die_def ok_simps split: result.splits)

lemma ok_expectIdentifier_node:
  "ok nb (Some (rbind (expectIdentifier L) (\<lambda>t L'. Return (node_of t) L')))"
  by (simp add: rbind_def ok_simps nb_simps split: result.splits)

lemma expression_no_bool: "no_bool_calls P \<Longrightarrow> ok nb (expression P L)"
  unfolding expression_def
  by (intro ok_binds no_bool_callsD)

lemma parenthetical_no_bool: "no_bool_calls P \<Longrightarrow> ok nb (parenthetical P L)"
  unfolding parenthetical_def
  by (intro ok_binds no_bool_callsD) (simp_all add: ok_simps)

lemma block_no_bool: "no_bool_calls P \<Longrightarrow> ok nb (block P L)"
  unfolding block_def
  by (intro ok_binds no_bool_callsD) (auto simp: ok_simps nb_simps split: list.splits)

lemma rule_no_bool: "no_bool_calls P \<Longrightarrow> ok nb (rule P L)"
  unfolding rule_def
  by (auto intro!: ok_binds no_bool_callsD simp: ok_simps nb_simps)

lemma signed_no_bool: "no_bool_calls P \<Longrightarrow> ok nb (signed P L)"
  unfolding signed_def
  by (auto intro!: ok_binds no_bool_callsD simp: ok_simps nb_simps
      split: sum.splits option.splits)

lemma discrete_no_bool: "no_bool_calls P \<Longrightarrow> ok nb (discrete P L)"
  unfolding discrete_def
  by (auto intro!: ok_binds no_bool_callsD ok_Parsicle_die simp: ok_simps nb_simps
      split: sum.splits bool.splits)

lemma delimited_no_bool: "no_bool_calls P \<Longrightarrow> ok nbs (delimited P start stop sep pf L)"
  unfolding delimited_def
  by (auto intro!: ok_binds no_bool_callsD simp: ok_simps nb_simps)

lemma delimited_loop_no_bool:
  "no_bool_calls P \<Longrightarrow> nbs body \<Longrightarrow> ok nbs (delimited_loop P stop sep pf first body L)"
  unfolding delimited_loop_def
  by (auto intro!: ok_binds no_bool_callsD ok_expectIdentifier_node simp: ok_simps nb_simps
      split: parserFn.splits)

lemma handleInvocation_no_bool:
  "no_bool_calls P \<Longrightarrow> nb x \<Longrightarrow> ok nb (handleInvocation P x L)"
  unfolding handleInvocation_def
  by (auto intro!: ok_binds no_bool_callsD simp: ok_simps nb_simps)

lemma resolveOperatorBindings_no_bool:
  "no_bool_calls P \<Longrightarrow> nb x \<Longrightarrow> ok nb (resolveOperatorBindings P x p L)"
  unfolding resolveOperatorBindings_def
  by (auto intro!: ok_binds no_bool_callsD simp: ok_simps nb_simps split: option.splits)

lemma Parsicle_no_bool: "no_bool_calls (Parsicle n)"
proof (induction n)
  case 0
  show ?case by (simp add: no_bool_calls_def Parsicle_zero ok_simps)
next
  case (Suc n)
  show ?case
    unfolding no_bool_calls_def Parsicle_calls
    using Suc
    by (simp add: expression_no_bool parenthetical_no_bool block_no_bool rule_no_bool
        signed_no_bool discrete_no_bool delimited_no_bool delimited_loop_no_bool
        handleInvocation_no_bool resolveOperatorBindings_no_bool)
qed

lemma parse_loop_no_bool:
  "no_bool_calls P \<Longrightarrow> nbs ast \<Longrightarrow> ok nbs (parse_loop P k ast L)"
proof (induction k arbitrary: ast L)
  case 0
  show ?case by (simp add: ok_simps)
next
  case (Suc k)
  show ?case
    using Suc.prems
    by (auto intro!: ok_binds no_bool_callsD Suc.IH simp: ok_simps nb_simps)
qed

lemma parse_no_bool: "ok nbs (parse n L)"
  unfolding parse_def
  by (auto intro!: ok_binds no_bool_callsD parse_loop_no_bool Parsicle_no_bool simp: nb_simps)

lemma Parsicle_parse_no_bool:
  assumes "Parsicle_parse n content = Some (Inr ast)"
  shows "\<not> list_ex has_bool ast"
proof -
  from assms obtain r where r: "parse n (new_Luthor (new_CharStream content)) = Some r"
    and v: "(case r of Throw e \<Rightarrow> Inl e | Return a s \<Rightarrow> Inr a) = Inr ast"
    by (auto simp: Parsicle_parse_def outcome_def)
  from v obtain s where "r = Return ast s"
    by (cases r) auto
  with r parse_no_bool [of n "new_Luthor (new_CharStream content)"] show ?thesis
    by (simp add: ok_simps nbs_def)
qed

lemma Luthor_peek_cached:
  "Luthor_peek L = Return (Some t) L1 \<Longrightarrow>
   Luthor_peek L1 = Return (Some t) L1 \<and>
   Luthor_next L1 = Return (Some t) (L1\<lparr>current := None\<rparr>)"
  by (auto simp: Luthor_peek_def Luthor_next_def split: option.splits result.splits)

lemma discrete_other_keyword:
  assumes "Luthor_peek L = Return (Some (Token Kw (SV v))) L1" and "v \<noteq> ''rule''"
  shows "discrete P L = Some (Throw (Luthor_die L1 (UnexpectedToken (Some (Token Kw (SV v))))))"
  using assms Luthor_peek_cached [OF assms(1)]
  by (simp add: discrete_def andThen_simps isPunc_def isKw_def isOp_def checkTypeAndValue_def
      isOneOfType_def Parsicle_die_def)

text \<open>
  Claim C10. No tree that \<open>parse()\<close> returns contains a node of type \<open>bool\<close>, whatever the
  input and however deep the parser may nest: \<open>Nodes.bool\<close> is never called. And where
  the token under the lookahead is one of the keywords \<open>true\<close>, \<open>false\<close> and \<open>conform\<close>,
  \<open>discrete\<close>, an expression and the whole parse fail with the syntax error "Unexpected
  token" for that keyword, at the position the token stream is at.
\<close>

theorem no_bool_node_from_parse:
  "(Parsicle_parse n content = Some (Inr ast) \<longrightarrow> \<not> list_ex has_bool ast) \<and>
   (Luthor_peek L = Return (Some (Token Kw (SV v))) L1 \<and>
    v \<in> set [''true'', ''false'', ''conform''] \<longrightarrow>
      discrete P L =
        Some (Throw (Luthor_die L1 (UnexpectedToken (Some (Token Kw (SV v)))))) \<and>
      expression (Parsicle (Suc k)) L =
        Some (Throw (Luthor_die L1 (UnexpectedToken (Some (Token Kw (SV v)))))) \<and>
      parse (Suc (Suc k)) L =
        Some (Throw (Luthor_die L1 (UnexpectedToken (Some (Token Kw (SV v)))))))"
proof (intro conjI impI)
  assume "Parsicle_parse n content = Some (Inr ast)"
  then show "\<not> list_ex has_bool ast" by (rule Parsicle_parse_no_bool)
next
  assume a: "Luthor_peek L = Return (Some (Token Kw (SV v))) L1 \<and>
    v \<in> set [''true'', ''false'', ''conform'']"
  then have pk: "Luthor_peek L = Return (Some (Token Kw (SV v))) L1" and nr: "v \<noteq> ''rule''"
    by auto
  show d: "discrete Q L =
      Some (Throw (Luthor_die L1 (UnexpectedToken (Some (Token Kw (SV v))))))" for Q
    using pk nr by (rule discrete_other_keyword)
  show e: "expression (Parsicle (Suc j)) L =
      Some (Throw (Luthor_die L1 (UnexpectedToken (Some (Token Kw (SV v))))))" for j
    by (simp add: expression_def Parsicle_calls d andThen_simps)
  show "parse (Suc (Suc k)) L =
      Some (Throw (Luthor_die L1 (UnexpectedToken (Some (Token Kw (SV v))))))"
    by (simp add: parse_def Parsicle_calls e andThen_simps)
qed

text \<open>A rule declaration that parses, and the document \<open>conform\<close>.\<close>

theorem no_bool_node_from_parse_witness:
  "Parsicle_parse 12 ''rule f(x) { x * 2 }'' =
     Some (Inr [Rule (Some (SV ''f'')) [Leaf (Token Id (SV ''x''))]
                 (BinaryExpression (SV ''*'') (Leaf (Token Id (SV ''x'')))
                    (Leaf (Token Num (NV 2))))]) \<and>
   \<not> list_ex has_bool
       [Rule (Some (SV ''f'')) [Leaf (Token Id (SV ''x''))]
          (BinaryExpression (SV ''*'') (Leaf (Token Id (SV ''x'')))
             (Leaf (Token Num (NV 2))))] \<and>
   Luthor_peek (new_Luthor (new_CharStream ''conform'')) =
     Return (Some (Token Kw (SV ''conform'')))
       \<lparr>current = Some (Token Kw (SV ''conform'')),
          stream = \<lparr>input = ''conform'', pos = 7, line = 1, col = 7\<rparr>\<rparr> \<and>
   parse (Suc (Suc 0)) (new_Luthor (new_CharStream ''conform'')) =
     Some (Throw (IllegalSyntaxError 1 7 (UnexpectedToken (Some (Token Kw (SV ''conform''))))))"
proof -
  have p: "Parsicle_parse 12 ''rule f(x) { x * 2 }'' =
     Some (Inr [Rule (Some (SV ''f'')) [Leaf (Token Id (SV ''x''))]
                 (BinaryExpression (SV ''*'') (Leaf (Token Id (SV ''x'')))
                    (Leaf (Token Num (NV 2))))])"
    by (simp add: lex_eval parse_eval del: One_nat_def cong: andThen_weak_cong rbind_weak_cong)
  have pk: "Luthor_peek (new_Luthor (new_CharStream ''conform'')) =
     Return (Some (Token Kw (SV ''conform'')))
       \<lparr>current = Some (Token Kw (SV ''conform'')),
          stream = \<lparr>input = ''conform'', pos = 7, line = 1, col = 7\<rparr>\<rparr>"
    by (simp add: lex_eval del: One_nat_def)
  show ?thesis
    using p pk
      no_bool_node_from_parse [of 12 "''rule f(x) { x * 2 }''"
        "[Rule (Some (SV ''f'')) [Leaf (Token Id (SV ''x''))]
           (BinaryExpression (SV ''*'') (Leaf (Token Id (SV ''x'')))
              (Leaf (Token Num (NV 2))))]"
        "new_Luthor (new_CharStream ''conform'')" "''conform''"
        "\<lparr>current = Some (Token Kw (SV ''conform'')),
           stream = \<lparr>input = ''conform'', pos = 7, line = 1, col = 7\<rparr>\<rparr>" _ 0]
    by (simp add: Luthor_die_def CharStream_die_def)
qed

section \<open>Binding powers\<close>

text \<open>
  One step of the resolver, in every state: an operator whose binding power does not exceed
  the minimum is left unread and the left operand returned; one whose binding power does is
  consumed, the right-hand side is resolved at that power, and the resolver goes on with
  the combined node.
\<close>

lemma yields_ConsE:
  assumes "yields L (t # ts)"
  obtains L1 where "Luthor_peek L = Return (Some t) L1" and "yields (L1\<lparr>current := None\<rparr>) ts"
  using assms by (auto split: result.splits option.splits)

lemma yields_NilE:
  assumes "yields L []"
  obtains L1 where "Luthor_peek L = Return None L1"
  using assms by (auto split: result.splits option.splits)

lemma Luthor_peek_end:
  assumes "Luthor_peek L = Return None L1"
  shows "Luthor_peek L1 = Return None L1"
proof -
  from assms obtain s where s: "readNextToken (stream L) = Return None s"
    and L1: "L1 = L\<lparr>current := None, stream := s\<rparr>"
    by (auto simp: Luthor_peek_def split: option.splits result.splits)
  from s have "readNextToken s = Return None s"
    using readNextToken_None_at_end readNextToken_at_end by blast
  with L1 show ?thesis by (simp add: Luthor_peek_def)
qed

lemma PRECEDENCE_positive: "PRECEDENCE op = Some p \<Longrightarrow> 0 < p"
  by (auto simp: PRECEDENCE_def PRECEDENCE_table_def split: tvalue.splits if_splits)

lemma discrete_leaf:
  assumes "Luthor_peek L = Return (Some a) L1" and "leaf_token a"
    and "Luthor_peek (L1\<lparr>current := None\<rparr>) = Return t L2" and "\<not> isPunc t (Some ''('')"
  shows "discrete (Parsicle (Suc n)) L = Some (Return (Leaf a) L2)"
proof -
  have ty: "tok_type a \<noteq> Punc" "tok_type a \<noteq> Kw" "tok_type a \<noteq> Op"
    using assms(2) by (auto simp: leaf_token_def)
  show ?thesis
    using assms Luthor_peek_cached [OF assms(1)] ty
    by (auto simp: discrete_def andThen_simps isPunc_def isKw_def isOp_def checkTypeAndValue_def
        isOneOfType_def leaf_token_def node_of_def Parsicle_calls handleInvocation_def)
qed

lemma resolveOperatorBindings_stop:
  assumes "Luthor_peek L = Return t L1"
    and "t = None \<or> (\<exists>opr p. t = Some (Token Op (SV opr)) \<and> PRECEDENCE (SV opr) = Some p \<and> p \<le> q)"
  shows "resolveOperatorBindings P left q L = Some (Return left L1)"
  using assms
  by (auto simp: resolveOperatorBindings_def andThen_simps isOp_def checkTypeAndValue_def)

lemma resolveOperatorBindings_step:
  assumes "Luthor_peek L = Return (Some (Token Op (SV opr))) L1"
    and "PRECEDENCE (SV opr) = Some p" and "q < p"
  shows "resolveOperatorBindings P left q L =
     andThen (call_discrete P (L1\<lparr>current := None\<rparr>)) (\<lambda>d L3.
     andThen (call_resolveOperatorBindings P d p L3) (\<lambda>rightNode L4.
     call_resolveOperatorBindings P (Nodes_binaryExpression (SV opr) left rightNode) q L4))"
  using assms Luthor_peek_cached [OF assms(1)]
  by (simp add: resolveOperatorBindings_def andThen_simps isOp_def checkTypeAndValue_def)

lemma three_operands:
  assumes y: "yields L [a, Token Op (SV o1), b, Token Op (SV o2), c]"
    and leaf: "leaf_token a" "leaf_token b" "leaf_token c"
    and p1: "PRECEDENCE (SV o1) = Some p1" and p2: "PRECEDENCE (SV o2) = Some p2"
  shows "outcome (expression (Parsicle (7 + k)) L) =
     Some (Inr (if p1 < p2
                then Nodes_binaryExpression (SV o1) (Leaf a)
                       (Nodes_binaryExpression (SV o2) (Leaf b) (Leaf c))
                else Nodes_binaryExpression (SV o2)
                       (Nodes_binaryExpression (SV o1) (Leaf a) (Leaf b)) (Leaf c)))"
proof -
  have fuel: "7 + k = Suc (Suc (Suc (Suc (Suc (Suc (Suc k))))))"
    by simp
  from y obtain La where a: "Luthor_peek L = Return (Some a) La"
    and ya: "yields (La\<lparr>current := None\<rparr>) [Token Op (SV o1), b, Token Op (SV o2), c]"
    by (rule yields_ConsE)
  from ya obtain Lb where o1: "Luthor_peek (La\<lparr>current := None\<rparr>) = Return (Some (Token Op (SV o1))) Lb"
    and yb: "yields (Lb\<lparr>current := None\<rparr>) [b, Token Op (SV o2), c]"
    by (rule yields_ConsE)
  from yb obtain Lc where b: "Luthor_peek (Lb\<lparr>current := None\<rparr>) = Return (Some b) Lc"
    and yc: "yields (Lc\<lparr>current := None\<rparr>) [Token Op (SV o2), c]"
    by (rule yields_ConsE)
  from yc obtain Ld where o2: "Luthor_peek (Lc\<lparr>current := None\<rparr>) = Return (Some (Token Op (SV o2))) Ld"
    and yd: "yields (Ld\<lparr>current := None\<rparr>) [c]"
    by (rule yields_ConsE)
  from yd obtain Le where c: "Luthor_peek (Ld\<lparr>current := None\<rparr>) = Return (Some c) Le"
    and ye: "yields (Le\<lparr>current := None\<rparr>) []"
    by (rule yields_ConsE)
  from ye obtain Lf where e: "Luthor_peek (Le\<lparr>current := None\<rparr>) = Return None Lf"
    by (rule yields_NilE)
  note o1' = Luthor_peek_cached [OF o1, THEN conjunct1]
  note o2' = Luthor_peek_cached [OF o2, THEN conjunct1]
  note e' = Luthor_peek_end [OF e]
  have nop: "\<not> isPunc (Some (Token Op x)) y" "\<not> isPunc None y" for x y
    by (simp_all add: isPunc_def checkTypeAndValue_def)
  have da: "discrete (Parsicle (Suc n)) L = Some (Return (Leaf a) Lb)" for n
    using a leaf(1) o1 nop(1) by (rule discrete_leaf)
  have db: "discrete (Parsicle (Suc n)) (Lb\<lparr>current := None\<rparr>) = Some (Return (Leaf b) Ld)" for n
    using b leaf(2) o2 nop(1) by (rule discrete_leaf)
  have dc: "discrete (Parsicle (Suc n)) (Ld\<lparr>current := None\<rparr>) = Some (Return (Leaf c) Lf)" for n
    using c leaf(3) e nop(2) by (rule discrete_leaf)
  have stop_end: "resolveOperatorBindings P x q Lf = Some (Return x Lf)" for P x q
    using e' by (rule resolveOperatorBindings_stop) simp
  have hi: "handleInvocation P x Lf = Some (Return x Lf)" for P x
    using e' by (simp add: handleInvocation_def andThen_simps nop)
  have pos: "0 < p1" "0 < p2"
    using p1 p2 by (auto dest: PRECEDENCE_positive)
  have step1: "resolveOperatorBindings P x 0 Lb =
     andThen (call_discrete P (Lb\<lparr>current := None\<rparr>)) (\<lambda>d L3.
     andThen (call_resolveOperatorBindings P d p1 L3) (\<lambda>rightNode L4.
     call_resolveOperatorBindings P (Nodes_binaryExpression (SV o1) x rightNode) 0 L4))" for P x
    using o1' p1 pos(1) by (rule resolveOperatorBindings_step)
  show ?thesis
  proof (cases "p1 < p2")
    case True
    have step2: "resolveOperatorBindings P x p1 Ld =
       andThen (call_discrete P (Ld\<lparr>current := None\<rparr>)) (\<lambda>d L3.
       andThen (call_resolveOperatorBindings P d p2 L3) (\<lambda>rightNode L4.
       call_resolveOperatorBindings P (Nodes_binaryExpression (SV o2) x rightNode) p1 L4))" for P x
      using o2' p2 True by (rule resolveOperatorBindings_step)
    show ?thesis
      using True
      unfolding fuel
      by (simp add: outcome_def expression_def Parsicle_calls
          da db dc step1 step2 stop_end hi andThen_simps)
  next
    case False
    have stop2: "resolveOperatorBindings P x p1 Ld = Some (Return x Ld)" for P x
      using o2' by (rule resolveOperatorBindings_stop) (use p2 False in simp)
    have step2: "resolveOperatorBindings P x 0 Ld =
       andThen (call_discrete P (Ld\<lparr>current := None\<rparr>)) (\<lambda>d L3.
       andThen (call_resolveOperatorBindings P d p2 L3) (\<lambda>rightNode L4.
       call_resolveOperatorBindings P (Nodes_binaryExpression (SV o2) x rightNode) 0 L4))" for P x
      using o2' p2 pos(2) by (rule resolveOperatorBindings_step)
    show ?thesis
      using False
      unfolding fuel
      by (simp add: outcome_def expression_def Parsicle_calls
          da db dc step1 step2 stop2 stop_end hi andThen_simps)
  qed
qed

text \<open>
  The resolver on a chain, by induction on the number of pairs still to be read: it
  returns, at some nesting and every deeper one, and what it returns is the left operand
  combined with the pairs it has read, nested as \<open>nested\<close> says; it stops at the end or at
  an operator whose power does not exceed the minimum.
\<close>

lemma yields_peek:
  assumes "yields L ts" and "Luthor_peek L = Return t L1"
  shows "yields L1 ts"
proof (cases ts)
  case Nil
  with assms have "t = None" by (auto split: option.splits)
  with assms(2) have "Luthor_peek L1 = Return None L1" by (simp add: Luthor_peek_end)
  with Nil show ?thesis by simp
next
  case (Cons u us)
  with assms have t: "t = Some u" and y: "yields (L1\<lparr>current := None\<rparr>) us"
    by (auto split: option.splits)
  from assms(2) t have "Luthor_peek L1 = Return (Some u) L1"
    by (simp add: Luthor_peek_cached)
  with y Cons show ?thesis by simp
qed

lemma yields_ops_peek:
  assumes "yields L (ops_tokens rest)"
  obtains t L1 where "Luthor_peek L = Return t L1" and "\<not> isPunc t (Some ''('')"
    and "yields L1 (ops_tokens rest)"
proof (cases rest)
  case Nil
  with assms have "yields L []" by (simp add: ops_tokens_def)
  then obtain L1 where pk: "Luthor_peek L = Return None L1"
    by (rule yields_NilE)
  have "\<not> isPunc None (Some ''('')" by (simp add: isPunc_def checkTypeAndValue_def)
  with pk yields_peek [OF assms pk] that show ?thesis by blast
next
  case (Cons ox r)
  obtain opr x where ox: "ox = (opr, x)" by (cases ox)
  with Cons assms have "yields L (Token Op (SV opr) # x # ops_tokens r)"
    by (simp add: ops_tokens_def)
  then obtain L1 where pk: "Luthor_peek L = Return (Some (Token Op (SV opr))) L1"
    by (rule yields_ConsE)
  have "\<not> isPunc (Some (Token Op (SV opr))) (Some ''('')"
    by (simp add: isPunc_def checkTypeAndValue_def)
  with pk yields_peek [OF assms pk] that show ?thesis by blast
qed

lemma flatten_binaryExpression:
  "flatten (Nodes_binaryExpression opr left right) = flatten left @ [Token Op opr] @ flatten right"
  by (simp add: Nodes_binaryExpression_def)

lemma root_power_binaryExpression:
  "root_power (Nodes_binaryExpression opr left right) = PRECEDENCE opr"
  by (simp add: Nodes_binaryExpression_def)

lemma nested_binaryExpression:
  "nested (Nodes_binaryExpression opr left right) =
     (binds opr left right \<and> nested left \<and> nested right)"
  by (auto simp: Nodes_binaryExpression_def)

lemma resolve_chain:
  assumes "list_all recognized rest" and "yields L (ops_tokens rest)" and "nested left"
    and "case root_power left of None \<Rightarrow> True
         | Some pl \<Rightarrow> (case first_power rest of None \<Rightarrow> True | Some pf \<Rightarrow> pf \<le> pl)"
  shows "\<exists>n tree rest' L'.
     (\<forall>k. resolveOperatorBindings (Parsicle (n + k)) left q L = Some (Return tree L')) \<and>
     yields L' (ops_tokens rest') \<and> list_all recognized rest' \<and>
     length rest' \<le> length rest \<and>
     flatten tree @ ops_tokens rest' = flatten left @ ops_tokens rest \<and>
     nested tree \<and>
     (case first_power rest' of None \<Rightarrow> True | Some pf \<Rightarrow> pf \<le> q) \<and>
     (tree = left \<or> (\<exists>p. root_power tree = Some p \<and> q < p))"
  using assms
proof (induction "length rest" arbitrary: rest left q L rule: less_induct)
  case less
  note rec = less.prems(1) and y = less.prems(2) and nl = less.prems(3) and fit = less.prems(4)
  show ?case
  proof (cases rest)
    case Nil
    with y have "yields L []" by (simp add: ops_tokens_def)
    then obtain L1 where pk: "Luthor_peek L = Return None L1"
      by (rule yields_NilE)
    have r: "resolveOperatorBindings P left q L = Some (Return left L1)" for P
      using pk by (rule resolveOperatorBindings_stop) simp
    have "yields L1 (ops_tokens rest)" using y pk by (rule yields_peek)
    with r rec nl Nil show ?thesis
      by (intro exI [of _ 0] exI [of _ left] exI [of _ rest] exI [of _ L1])
         (simp add: first_power_def)
  next
    case (Cons ox r)
    obtain opr x where ox: "ox = (opr, x)" by (cases ox)
    from rec Cons ox obtain p where p: "PRECEDENCE (SV opr) = Some p" and lx: "leaf_token x"
      and recr: "list_all recognized r"
      by (auto simp: recognized_def)
    have toks: "ops_tokens rest = Token Op (SV opr) # x # ops_tokens r"
      using Cons ox by (simp add: ops_tokens_def)
    from y toks have "yields L (Token Op (SV opr) # x # ops_tokens r)" by simp
    then obtain L1 where pk: "Luthor_peek L = Return (Some (Token Op (SV opr))) L1"
      and y1: "yields (L1\<lparr>current := None\<rparr>) (x # ops_tokens r)"
      by (rule yields_ConsE)
    show ?thesis
    proof (cases "q < p")
      case False
      have stop: "resolveOperatorBindings P left q L = Some (Return left L1)" for P
        using pk by (rule resolveOperatorBindings_stop) (use p False in simp)
      have "yields L1 (ops_tokens rest)" using y pk by (rule yields_peek)
      with stop rec nl Cons ox p False show ?thesis
        by (intro exI [of _ 0] exI [of _ left] exI [of _ rest] exI [of _ L1])
           (simp add: first_power_def)
    next
      case True
      from y1 obtain L2 where pkx: "Luthor_peek (L1\<lparr>current := None\<rparr>) = Return (Some x) L2"
        and y2: "yields (L2\<lparr>current := None\<rparr>) (ops_tokens r)"
        by (rule yields_ConsE)
      from y2 obtain t L3 where pk3: "Luthor_peek (L2\<lparr>current := None\<rparr>) = Return t L3"
        and np: "\<not> isPunc t (Some ''('')" and y3: "yields L3 (ops_tokens r)"
        by (rule yields_ops_peek)
      have dx: "discrete (Parsicle (Suc m)) (L1\<lparr>current := None\<rparr>) = Some (Return (Leaf x) L3)"
        for m
        using pkx lx pk3 np by (rule discrete_leaf)
      have len_r: "length r < length rest" using Cons by simp
      have nlx: "nested (Leaf x)" by simp
      have fitx: "case root_power (Leaf x) of None \<Rightarrow> True
         | Some pl \<Rightarrow> (case first_power r of None \<Rightarrow> True | Some pf \<Rightarrow> pf \<le> pl)"
        by simp
      from less.hyps [OF len_r recr y3 nlx fitx, of p]
      obtain n1 right r' L4 where
        res1: "\<And>k. resolveOperatorBindings (Parsicle (n1 + k)) (Leaf x) p L3 =
                  Some (Return right L4)"
        and y4: "yields L4 (ops_tokens r')" and rec': "list_all recognized r'"
        and len': "length r' \<le> length r"
        and fl1: "flatten right @ ops_tokens r' = flatten (Leaf x) @ ops_tokens r"
        and nr: "nested right"
        and stop1: "case first_power r' of None \<Rightarrow> True | Some pf \<Rightarrow> pf \<le> p"
        and rp1: "right = Leaf x \<or> (\<exists>pr. root_power right = Some pr \<and> p < pr)"
        by blast
      let ?g = "Nodes_binaryExpression (SV opr) left right"
      have bl: "case root_power left of None \<Rightarrow> True | Some pl \<Rightarrow> p \<le> pl"
        using fit Cons ox p by (simp add: first_power_def split: option.splits)
      have br: "case root_power right of None \<Rightarrow> True | Some pr \<Rightarrow> p < pr"
        using rp1 by auto
      have ng: "nested ?g"
        using nl nr bl br p by (simp add: nested_binaryExpression binds_def)
      have rg: "root_power ?g = Some p"
        using p by (simp add: root_power_binaryExpression)
      have fitg: "case root_power ?g of None \<Rightarrow> True
         | Some pl \<Rightarrow> (case first_power r' of None \<Rightarrow> True | Some pf \<Rightarrow> pf \<le> pl)"
        using rg stop1 by simp
      have len_r': "length r' < length rest" using len' len_r by simp
      from less.hyps [OF len_r' rec' y4 ng fitg, of q]
      obtain n2 tree r'' L5 where
        res2: "\<And>k. resolveOperatorBindings (Parsicle (n2 + k)) ?g q L4 = Some (Return tree L5)"
        and y5: "yields L5 (ops_tokens r'')" and rec'': "list_all recognized r''"
        and len'': "length r'' \<le> length r'"
        and fl2: "flatten tree @ ops_tokens r'' = flatten ?g @ ops_tokens r'"
        and nt: "nested tree"
        and stop2: "case first_power r'' of None \<Rightarrow> True | Some pf \<Rightarrow> pf \<le> q"
        and rp2: "tree = ?g \<or> (\<exists>pt. root_power tree = Some pt \<and> q < pt)"
        by blast
      have run: "resolveOperatorBindings (Parsicle (Suc (Suc (n1 + n2)) + k)) left q L =
          Some (Return tree L5)" for k
      proof -
        have a: "resolveOperatorBindings (Parsicle (Suc (n1 + n2 + k))) (Leaf x) p L3 =
            Some (Return right L4)"
          using res1 [of "Suc (n2 + k)"] by (simp add: add.assoc)
        have b: "resolveOperatorBindings (Parsicle (Suc (n1 + n2 + k))) ?g q L4 =
            Some (Return tree L5)"
          using res2 [of "Suc (n1 + k)"] by (simp add: add.assoc add.left_commute)
        show ?thesis
          using resolveOperatorBindings_step [OF pk p True,
              of "Parsicle (Suc (Suc (n1 + n2 + k)))" left]
          by (simp add: Parsicle_calls dx a b andThen_simps)
      qed
      have fl: "flatten tree @ ops_tokens r'' = flatten left @ ops_tokens rest"
        using fl1 fl2 toks by (simp add: flatten_binaryExpression)
      have rp: "tree = left \<or> (\<exists>pt. root_power tree = Some pt \<and> q < pt)"
        using rp2 rg True by auto
      have "length r'' \<le> length rest" using len'' len' len_r by simp
      with run y5 rec'' fl nt stop2 rp show ?thesis
        by (intro exI [of _ "Suc (Suc (n1 + n2))"] exI [of _ tree] exI [of _ r''] exI [of _ L5])
           simp
    qed
  qed
qed

lemma expression_chain:
  assumes y: "yields L (a # ops_tokens rest)" and la: "leaf_token a"
    and rec: "list_all recognized rest"
  shows "\<exists>n tree. (\<forall>k. outcome (expression (Parsicle (n + k)) L) = Some (Inr tree)) \<and>
     flatten tree = a # ops_tokens rest \<and> nested tree"
proof -
  from y obtain La where pka: "Luthor_peek L = Return (Some a) La"
    and ya: "yields (La\<lparr>current := None\<rparr>) (ops_tokens rest)"
    by (rule yields_ConsE)
  from ya obtain t Lb where pkb: "Luthor_peek (La\<lparr>current := None\<rparr>) = Return t Lb"
    and np: "\<not> isPunc t (Some ''('')" and yb: "yields Lb (ops_tokens rest)"
    by (rule yields_ops_peek)
  have da: "discrete (Parsicle (Suc m)) L = Some (Return (Leaf a) Lb)" for m
    using pka la pkb np by (rule discrete_leaf)
  have nla: "nested (Leaf a)" by simp
  have fita: "case root_power (Leaf a) of None \<Rightarrow> True
     | Some pl \<Rightarrow> (case first_power rest of None \<Rightarrow> True | Some pf \<Rightarrow> pf \<le> pl)"
    by simp
  from resolve_chain [OF rec yb nla fita, of 0]
  obtain n tree rest' L' where
    res: "\<And>k. resolveOperatorBindings (Parsicle (n + k)) (Leaf a) 0 Lb = Some (Return tree L')"
    and y': "yields L' (ops_tokens rest')" and rec': "list_all recognized rest'"
    and fl: "flatten tree @ ops_tokens rest' = flatten (Leaf a) @ ops_tokens rest"
    and nt: "nested tree"
    and stop: "case first_power rest' of None \<Rightarrow> True | Some pf \<Rightarrow> pf \<le> 0"
    by blast
  have empty: "rest' = []"
  proof (cases rest')
    case Nil
    then show ?thesis .
  next
    case (Cons ox r)
    obtain opr x where "ox = (opr, x)" by (cases ox)
    with Cons rec' obtain p where "PRECEDENCE (SV opr) = Some p"
      by (auto simp: recognized_def)
    with Cons \<open>ox = (opr, x)\<close> stop PRECEDENCE_positive [of "SV opr" p] show ?thesis
      by (simp add: first_power_def)
  qed
  with y' have "yields L' []" by (simp add: ops_tokens_def)
  then obtain L'' where pke: "Luthor_peek L' = Return None L''"
    by (rule yields_NilE)
  have hi: "handleInvocation P tree L' = Some (Return tree L'')" for P
    using pke by (simp add: handleInvocation_def andThen_simps isPunc_def checkTypeAndValue_def)
  have run: "outcome (expression (Parsicle (Suc (Suc n) + k)) L) = Some (Inr tree)" for k
    using res [of "Suc k"] by (simp add: outcome_def expression_def Parsicle_calls da hi andThen_simps)
  from fl empty have "flatten tree = a # ops_tokens rest"
    by (simp add: ops_tokens_def)
  with run nt show ?thesis by blast
qed

text \<open>
  The same for operands of any kind and any lookahead after the chain: the resolver on the
  pairs that \<open>reads\<close> finds, by induction on the number of pairs still to be read.
\<close>

lemma discrete_deeper:
  "discrete (Parsicle n) L = Some r \<Longrightarrow> discrete (Parsicle (n + j)) L = Some r"
  using discrete_mono [OF Parsicle_extends [of n j], of L] by (simp add: le_opt_def)

lemma Luthor_peek_again:
  assumes "Luthor_peek L = Return t L1"
  shows "Luthor_peek L1 = Return t L1"
proof (cases t)
  case None
  with assms show ?thesis by (auto intro: Luthor_peek_end)
next
  case (Some u)
  with assms show ?thesis by (auto dest: Luthor_peek_cached)
qed

lemma reads_NilE:
  assumes "reads n L [] t"
  obtains L1 where "Luthor_peek L = Return t L1"
  using assms by (auto split: result.splits)

lemma reads_ConsE:
  assumes "reads n L ((opr, d) # rest) t"
  obtains L1 L3 where "Luthor_peek L = Return (Some (Token Op opr)) L1"
    and "discrete (Parsicle n) (L1\<lparr>current := None\<rparr>) = Some (Return d L3)"
    and "reads n L3 rest t"
  using assms by (auto split: result.splits option.splits)

lemma reads_peek:
  assumes "reads n L rest t" and "Luthor_peek L = Return u L1"
  shows "reads n L1 rest t"
proof (cases rest)
  case Nil
  with assms have "u = t" by (auto split: result.splits)
  with assms(2) have "Luthor_peek L1 = Return t L1" by (simp add: Luthor_peek_again)
  with Nil show ?thesis by simp
next
  case (Cons od r)
  from assms(2) have "Luthor_peek L1 = Return u L1" by (rule Luthor_peek_again)
  with assms Cons show ?thesis by (auto split: result.splits option.splits)
qed

lemma resolveOperatorBindings_stops:
  assumes "Luthor_peek L = Return t L1" and "stops t"
  shows "resolveOperatorBindings P left q L = Some (Return left L1)"
  using assms
  by (auto simp: resolveOperatorBindings_def andThen_simps isOp_def checkTypeAndValue_def stops_def
      split: option.splits)

lemma resolveOperatorBindings_low:
  assumes "Luthor_peek L = Return (Some (Token Op opr)) L1"
    and "PRECEDENCE opr = Some p" and "\<not> q < p"
  shows "resolveOperatorBindings P left q L = Some (Return left L1)"
  using assms
  by (auto simp: resolveOperatorBindings_def andThen_simps isOp_def checkTypeAndValue_def)

lemma resolveOperatorBindings_high:
  assumes "Luthor_peek L = Return (Some (Token Op opr)) L1"
    and "PRECEDENCE opr = Some p" and "q < p"
  shows "resolveOperatorBindings P left q L =
     andThen (call_discrete P (L1\<lparr>current := None\<rparr>)) (\<lambda>d L3.
     andThen (call_resolveOperatorBindings P d p L3) (\<lambda>rightNode L4.
     call_resolveOperatorBindings P (Nodes_binaryExpression opr left rightNode) q L4))"
  using assms Luthor_peek_cached [OF assms(1)]
  by (simp add: resolveOperatorBindings_def andThen_simps isOp_def checkTypeAndValue_def)

lemma resolve_reads:
  assumes "list_all has_power rest" and "reads n L rest t" and "stops t"
    and "shape_nested left"
    and "case shape_power left of None \<Rightarrow> True
         | Some pl \<Rightarrow> (case next_power rest of None \<Rightarrow> True | Some pf \<Rightarrow> pf \<le> pl)"
  shows "\<exists>m sh rest' L'.
     (\<forall>k. resolveOperatorBindings (Parsicle (m + k)) (shape_node left) q L =
            Some (Return (shape_node sh) L')) \<and>
     reads n L' rest' t \<and> list_all has_power rest' \<and>
     length rest' \<le> length rest \<and>
     items sh @ pair_items rest' = items left @ pair_items rest \<and>
     shape_nested sh \<and>
     (case next_power rest' of None \<Rightarrow> True | Some pf \<Rightarrow> pf \<le> q) \<and>
     (sh = left \<or> (\<exists>p. shape_power sh = Some p \<and> q < p))"
  using assms
proof (induction "length rest" arbitrary: rest left q L rule: less_induct)
  case less
  note rec = less.prems(1) and y = less.prems(2) and st = less.prems(3)
    and nl = less.prems(4) and fit = less.prems(5)
  show ?case
  proof (cases rest)
    case Nil
    with y have "reads n L [] t" by simp
    then obtain L1 where pk: "Luthor_peek L = Return t L1"
      by (rule reads_NilE)
    have r: "resolveOperatorBindings P (shape_node left) q L = Some (Return (shape_node left) L1)"
      for P
      using pk st by (rule resolveOperatorBindings_stops)
    have "reads n L1 rest t" using y pk by (rule reads_peek)
    with r rec nl Nil show ?thesis
      by (intro exI [of _ 0] exI [of _ left] exI [of _ rest] exI [of _ L1])
         (simp add: next_power_def)
  next
    case (Cons od r)
    obtain opr d where od: "od = (opr, d)" by (cases od)
    from rec Cons od obtain p where p: "PRECEDENCE opr = Some p"
      and recr: "list_all has_power r"
      by (auto simp: has_power_def)
    from y Cons od have "reads n L ((opr, d) # r) t" by simp
    then obtain L1 L3 where pk: "Luthor_peek L = Return (Some (Token Op opr)) L1"
      and dd: "discrete (Parsicle n) (L1\<lparr>current := None\<rparr>) = Some (Return d L3)"
      and y3: "reads n L3 r t"
      by (rule reads_ConsE)
    show ?thesis
    proof (cases "q < p")
      case False
      have stop: "resolveOperatorBindings P (shape_node left) q L =
          Some (Return (shape_node left) L1)" for P
        using pk p False by (rule resolveOperatorBindings_low)
      have "reads n L1 rest t" using y pk by (rule reads_peek)
      with stop rec nl Cons od p False show ?thesis
        by (intro exI [of _ 0] exI [of _ left] exI [of _ rest] exI [of _ L1])
           (simp add: next_power_def)
    next
      case True
      have len_r: "length r < length rest" using Cons by simp
      have nlx: "shape_nested (Operand d)" by simp
      have fitx: "case shape_power (Operand d) of None \<Rightarrow> True
         | Some pl \<Rightarrow> (case next_power r of None \<Rightarrow> True | Some pf \<Rightarrow> pf \<le> pl)"
        by simp
      from less.hyps [OF len_r recr y3 st nlx fitx, of p]
      obtain n1 right r' L4 where
        res1: "\<And>k. resolveOperatorBindings (Parsicle (n1 + k)) (shape_node (Operand d)) p L3 =
                  Some (Return (shape_node right) L4)"
        and y4: "reads n L4 r' t" and rec': "list_all has_power r'"
        and len': "length r' \<le> length r"
        and fl1: "items right @ pair_items r' = items (Operand d) @ pair_items r"
        and nr: "shape_nested right"
        and stop1: "case next_power r' of None \<Rightarrow> True | Some pf \<Rightarrow> pf \<le> p"
        and rp1: "right = Operand d \<or> (\<exists>pr. shape_power right = Some pr \<and> p < pr)"
        by blast
      let ?g = "Binary opr left right"
      have bl: "case shape_power left of None \<Rightarrow> True | Some pl \<Rightarrow> p \<le> pl"
        using fit Cons od p by (simp add: next_power_def split: option.splits)
      have br: "case shape_power right of None \<Rightarrow> True | Some pr \<Rightarrow> p < pr"
        using rp1 by auto
      have ng: "shape_nested ?g"
        using nl nr bl br p by simp
      have rg: "shape_power ?g = Some p"
        using p by simp
      have fitg: "case shape_power ?g of None \<Rightarrow> True
         | Some pl \<Rightarrow> (case next_power r' of None \<Rightarrow> True | Some pf \<Rightarrow> pf \<le> pl)"
        using rg stop1 by simp
      have len_r': "length r' < length rest" using len' len_r by simp
      from less.hyps [OF len_r' rec' y4 st ng fitg, of q]
      obtain n2 sh r'' L5 where
        res2: "\<And>k. resolveOperatorBindings (Parsicle (n2 + k)) (shape_node ?g) q L4 =
                  Some (Return (shape_node sh) L5)"
        and y5: "reads n L5 r'' t" and rec'': "list_all has_power r''"
        and len'': "length r'' \<le> length r'"
        and fl2: "items sh @ pair_items r'' = items ?g @ pair_items r'"
        and nt: "shape_nested sh"
        and stop2: "case next_power r'' of None \<Rightarrow> True | Some pf \<Rightarrow> pf \<le> q"
        and rp2: "sh = ?g \<or> (\<exists>pt. shape_power sh = Some pt \<and> q < pt)"
        by blast
      have run: "resolveOperatorBindings (Parsicle (Suc (n + n1 + n2) + k)) (shape_node left) q L =
          Some (Return (shape_node sh) L5)" for k
      proof -
        have d: "discrete (Parsicle (n + n1 + n2 + k)) (L1\<lparr>current := None\<rparr>) =
            Some (Return d L3)"
          using discrete_deeper [OF dd, of "n1 + n2 + k"] by (simp add: add.assoc)
        have a: "resolveOperatorBindings (Parsicle (n + n1 + n2 + k)) d p L3 =
            Some (Return (shape_node right) L4)"
          using res1 [of "n + n2 + k"] by (simp add: add.assoc add.left_commute)
        have b: "resolveOperatorBindings (Parsicle (n + n1 + n2 + k))
              (Nodes_binaryExpression opr (shape_node left) (shape_node right)) q L4 =
            Some (Return (shape_node sh) L5)"
          using res2 [of "n + n1 + k"] by (simp add: add.assoc add.left_commute)
        show ?thesis
          using resolveOperatorBindings_high [OF pk p True,
              of "Parsicle (Suc (n + n1 + n2 + k))" "shape_node left"]
          by (simp add: Parsicle_calls d a b andThen_simps)
      qed
      have toks: "pair_items rest = Opr opr # Opd d # pair_items r"
        using Cons od by (simp add: pair_items_def)
      have fl: "items sh @ pair_items r'' = items left @ pair_items rest"
        using fl1 fl2 toks by simp
      have rp: "sh = left \<or> (\<exists>pt. shape_power sh = Some pt \<and> q < pt)"
        using rp2 rg True by auto
      have "length r'' \<le> length rest" using len'' len' len_r by simp
      with run y5 rec'' fl nt stop2 rp show ?thesis
        by (intro exI [of _ "Suc (n + n1 + n2)"] exI [of _ sh] exI [of _ r''] exI [of _ L5])
           simp
    qed
  qed
qed

lemma expression_reads:
  assumes d0: "discrete (Parsicle n) L = Some (Return d0 L0)"
    and y: "reads n L0 rest t" and rec: "list_all has_power rest"
    and st: "stops t" and np: "\<not> isPunc t (Some ''('')"
  shows "\<exists>m sh L'.
     (\<forall>k. expression (Parsicle (m + k)) L = Some (Return (shape_node sh) L')) \<and>
     Luthor_peek L' = Return t L' \<and>
     items sh = Opd d0 # pair_items rest \<and> shape_nested sh"
proof -
  have nla: "shape_nested (Operand d0)" by simp
  have fita: "case shape_power (Operand d0) of None \<Rightarrow> True
     | Some pl \<Rightarrow> (case next_power rest of None \<Rightarrow> True | Some pf \<Rightarrow> pf \<le> pl)"
    by simp
  from resolve_reads [OF rec y st nla fita, of 0]
  obtain m sh rest' L' where
    res: "\<And>k. resolveOperatorBindings (Parsicle (m + k)) (shape_node (Operand d0)) 0 L0 =
             Some (Return (shape_node sh) L')"
    and y': "reads n L' rest' t" and rec': "list_all has_power rest'"
    and fl: "items sh @ pair_items rest' = items (Operand d0) @ pair_items rest"
    and nt: "shape_nested sh"
    and stop: "case next_power rest' of None \<Rightarrow> True | Some pf \<Rightarrow> pf \<le> 0"
    by blast
  have empty: "rest' = []"
  proof (cases rest')
    case Nil
    then show ?thesis .
  next
    case (Cons od r)
    with rec' obtain p where "PRECEDENCE (fst od) = Some p"
      by (auto simp: has_power_def)
    with Cons stop PRECEDENCE_positive [of "fst od" p] show ?thesis
      by (simp add: next_power_def)
  qed
  with y' have "reads n L' [] t" by simp
  then obtain L'' where pke: "Luthor_peek L' = Return t L''"
    by (rule reads_NilE)
  have hi: "handleInvocation P x L' = Some (Return x L'')" for P x
    using pke np by (simp add: handleInvocation_def andThen_simps)
  have run: "expression (Parsicle (Suc (n + m) + k)) L = Some (Return (shape_node sh) L'')" for k
  proof -
    have d: "discrete (Parsicle (n + m + k)) L = Some (Return d0 L0)"
      using discrete_deeper [OF d0, of "m + k"] by (simp add: add.assoc)
    have a: "resolveOperatorBindings (Parsicle (n + m + k)) d0 0 L0 =
        Some (Return (shape_node sh) L')"
      using res [of "n + k"] by (simp add: add.assoc add.left_commute)
    show ?thesis
      by (simp add: expression_def Parsicle_calls d a hi andThen_simps)
  qed
  from fl empty have "items sh = Opd d0 # pair_items rest"
    by (simp add: pair_items_def)
  moreover from pke have "Luthor_peek L'' = Return t L''" by (rule Luthor_peek_again)
  ultimately show ?thesis using run nt by blast
qed

text \<open>
  A nested shape is determined by its operands and operators in source order: in a nested
  shape the operators to the left of the root have at least the root's power and those to
  its right a greater one, so the root is the last operator of the least power.
\<close>

lemma items_not_Nil: "items s \<noteq> []"
  by (cases s) simp_all

lemma shape_power_of_operator:
  assumes "shape_nested s" and "Opr opr \<in> set (items s)"
  shows "\<exists>p. shape_power s = Some p"
  using assms by (cases s) (auto split: option.splits)

lemma shape_nested_powers:
  assumes "shape_nested s" and "shape_power s = Some p" and "Opr opr \<in> set (items s)"
  shows "\<exists>po. PRECEDENCE opr = Some po \<and> p \<le> po"
  using assms
proof (induction s arbitrary: p)
  case (Operand d)
  then show ?case by simp
next
  case (Binary o1 l r)
  from Binary.prems have p: "PRECEDENCE o1 = Some p" and nl: "shape_nested l"
    and nr: "shape_nested r"
    and bl: "case shape_power l of None \<Rightarrow> True | Some pl \<Rightarrow> p \<le> pl"
    and br: "case shape_power r of None \<Rightarrow> True | Some pr \<Rightarrow> p < pr"
    by (auto split: option.splits)
  from Binary.prems(3) consider "Opr opr \<in> set (items l)" | "opr = o1" | "Opr opr \<in> set (items r)"
    by auto
  then show ?case
  proof cases
    case 1
    with nl obtain pl where pl: "shape_power l = Some pl"
      using shape_power_of_operator by blast
    from Binary.IH(1) [OF nl pl 1] obtain po where "PRECEDENCE opr = Some po" "pl \<le> po"
      by blast
    with bl pl show ?thesis by simp
  next
    case 2
    with p show ?thesis by simp
  next
    case 3
    with nr obtain pr where pr: "shape_power r = Some pr"
      using shape_power_of_operator by blast
    from Binary.IH(2) [OF nr pr 3] obtain po where "PRECEDENCE opr = Some po" "pr \<le> po"
      by blast
    with br pr show ?thesis by simp
  qed
qed

lemma left_operators:
  assumes "shape_nested (Binary o1 l r)" and "PRECEDENCE o1 = Some p"
    and "Opr opr \<in> set (items l)"
  shows "\<exists>po. PRECEDENCE opr = Some po \<and> p \<le> po"
proof -
  from assms have nl: "shape_nested l"
    and bl: "case shape_power l of None \<Rightarrow> True | Some pl \<Rightarrow> p \<le> pl"
    by (auto split: option.splits)
  from nl assms(3) obtain pl where pl: "shape_power l = Some pl"
    using shape_power_of_operator by blast
  from shape_nested_powers [OF nl pl assms(3)] bl pl show ?thesis by auto
qed

lemma right_operators:
  assumes "shape_nested (Binary o1 l r)" and "PRECEDENCE o1 = Some p"
    and "Opr opr \<in> set (items r)"
  shows "\<exists>po. PRECEDENCE opr = Some po \<and> p < po"
proof -
  from assms have nr: "shape_nested r"
    and br: "case shape_power r of None \<Rightarrow> True | Some pr \<Rightarrow> p < pr"
    by (auto split: option.splits)
  from nr assms(3) obtain pr where pr: "shape_power r = Some pr"
    using shape_power_of_operator by blast
  from shape_nested_powers [OF nr pr assms(3)] br pr show ?thesis by auto
qed

lemma shape_nested_unique:
  assumes "shape_nested s" and "shape_nested s'" and "items s = items s'"
  shows "s = s'"
  using assms
proof (induction s arbitrary: s')
  case (Operand d)
  show ?case
  proof (cases s')
    case (Operand d')
    with Operand.prems show ?thesis by simp
  next
    case (Binary o2 l' r')
    with Operand.prems(3) items_not_Nil [of l'] show ?thesis
      by (cases "items l'") simp_all
  qed
next
  case (Binary o1 l r)
  show ?case
  proof (cases s')
    case (Operand d')
    with Binary.prems(3) items_not_Nil [of l] show ?thesis
      by (cases "items l") simp_all
  next
    case s': (Binary o2 l' r')
    from Binary.prems(1) obtain p where p: "PRECEDENCE o1 = Some p"
      by (auto split: option.splits)
    from Binary.prems(2) s' obtain p' where p': "PRECEDENCE o2 = Some p'"
      by (auto split: option.splits)
    note n1 = Binary.prems(1) and n2 = Binary.prems(2) [unfolded s']
    from Binary.prems(3) s'
    have eq: "items l @ Opr o1 # items r = items l' @ Opr o2 # items r'" by simp
    then obtain us where
      "items l = items l' @ us \<and> us @ Opr o1 # items r = Opr o2 # items r' \<or>
       items l @ us = items l' \<and> Opr o1 # items r = us @ Opr o2 # items r'"
      by (auto simp: append_eq_append_conv2)
    then have same: "items l = items l' \<and> o1 = o2 \<and> items r = items r'"
    proof
      assume a: "items l = items l' @ us \<and> us @ Opr o1 # items r = Opr o2 # items r'"
      show ?thesis
      proof (cases us)
        case Nil
        with a show ?thesis by simp
      next
        case (Cons u us')
        with a have u: "u = Opr o2" and r': "items r' = us' @ Opr o1 # items r"
          and l: "items l = items l' @ Opr o2 # us'"
          by simp_all
        from l have "Opr o2 \<in> set (items l)" by simp
        from left_operators [OF n1 p this] p' have "p \<le> p'" by simp
        moreover from r' have "Opr o1 \<in> set (items r')" by simp
        from right_operators [OF n2 p' this] p have "p' < p" by simp
        ultimately show ?thesis by simp
      qed
    next
      assume a: "items l @ us = items l' \<and> Opr o1 # items r = us @ Opr o2 # items r'"
      show ?thesis
      proof (cases us)
        case Nil
        with a show ?thesis by simp
      next
        case (Cons u us')
        with a have u: "u = Opr o1" and r: "items r = us' @ Opr o2 # items r'"
          and l': "items l' = items l @ Opr o1 # us'"
          by simp_all
        from l' have "Opr o1 \<in> set (items l')" by simp
        from left_operators [OF n2 p' this] p have "p' \<le> p" by simp
        moreover from r have "Opr o2 \<in> set (items r)" by simp
        from right_operators [OF n1 p this] p' have "p < p'" by simp
        ultimately show ?thesis by simp
      qed
    qed
    from n1 n2 have "shape_nested l" "shape_nested r" "shape_nested l'" "shape_nested r'"
      by (auto split: option.splits)
    with same Binary.IH [of l'] Binary.IH(2) [of r'] s' show ?thesis by simp
  qed
qed

text \<open>\<open>nest\<close> builds the nested shape, and the parser builds the node of that shape.\<close>

lemma items_attach: "items (attach sh opr d) = items sh @ [Opr opr, Opd d]"
  by (induction sh) simp_all

lemma shape_power_attach:
  "shape_power (attach sh opr d) = PRECEDENCE opr \<or>
   (shape_power (attach sh opr d) = shape_power sh \<and>
    (\<exists>p1 p. shape_power sh = Some p1 \<and> PRECEDENCE opr = Some p \<and> p1 < p))"
  by (cases sh) (auto split: option.splits)

lemma shape_nested_attach:
  assumes "shape_nested sh" and "PRECEDENCE opr = Some p"
  shows "shape_nested (attach sh opr d)"
  using assms
proof (induction sh)
  case (Operand x)
  then show ?case by simp
next
  case (Binary o1 l r)
  from Binary.prems obtain p1 where p1: "PRECEDENCE o1 = Some p1"
    and nl: "shape_nested l" and nr: "shape_nested r"
    and bl: "case shape_power l of None \<Rightarrow> True | Some pl \<Rightarrow> p1 \<le> pl"
    and br: "case shape_power r of None \<Rightarrow> True | Some pr \<Rightarrow> p1 < pr"
    by (auto split: option.splits)
  show ?case
  proof (cases "p1 < p")
    case True
    have na: "shape_nested (attach r opr d)"
      using nr Binary.prems(2) by (rule Binary.IH(2))
    have "case shape_power (attach r opr d) of None \<Rightarrow> True | Some pr \<Rightarrow> p1 < pr"
      using shape_power_attach [of r opr d] br True Binary.prems(2) by auto
    with True p1 Binary.prems(2) nl bl na show ?thesis by simp
  next
    case False
    with p1 Binary.prems show ?thesis by simp
  qed
qed

lemma items_foldl_attach:
  "items (foldl (\<lambda>sh od. attach sh (fst od) (snd od)) acc rest) = items acc @ pair_items rest"
  by (induction rest arbitrary: acc) (simp_all add: pair_items_def items_attach split_beta)

lemma shape_nested_foldl_attach:
  "shape_nested acc \<Longrightarrow> list_all has_power rest \<Longrightarrow>
   shape_nested (foldl (\<lambda>sh od. attach sh (fst od) (snd od)) acc rest)"
proof (induction rest arbitrary: acc)
  case Nil
  then show ?case by simp
next
  case (Cons od rest)
  from Cons.prems obtain p where "PRECEDENCE (fst od) = Some p"
    by (auto simp: has_power_def)
  with Cons.prems(1) have "shape_nested (attach acc (fst od) (snd od))"
    by (rule shape_nested_attach)
  with Cons.IH Cons.prems(2) show ?case by simp
qed

lemma items_nest: "items (nest d0 rest) = Opd d0 # pair_items rest"
  by (simp add: nest_def items_foldl_attach)

lemma shape_nested_nest: "list_all has_power rest \<Longrightarrow> shape_nested (nest d0 rest)"
  by (simp add: nest_def shape_nested_foldl_attach)

lemma expression_nest:
  assumes d0: "discrete (Parsicle n) L = Some (Return d0 L0)"
    and y: "reads n L0 rest t" and rec: "list_all has_power rest"
    and st: "stops t" and np: "\<not> isPunc t (Some ''('')"
  shows "\<exists>m L'.
     (\<forall>k. expression (Parsicle (m + k)) L = Some (Return (shape_node (nest d0 rest)) L')) \<and>
     Luthor_peek L' = Return t L'"
proof -
  from expression_reads [OF d0 y rec st np] obtain m sh L' where
    run: "\<And>k. expression (Parsicle (m + k)) L = Some (Return (shape_node sh) L')"
    and pk: "Luthor_peek L' = Return t L'"
    and it: "items sh = Opd d0 # pair_items rest" and ns: "shape_nested sh"
    by blast
  have "sh = nest d0 rest"
    using ns shape_nested_nest [OF rec] it by (intro shape_nested_unique) (simp_all add: items_nest)
  with run pk show ?thesis by blast
qed

text \<open>
  Claim C6. The binding powers are \<open>=\<close> 1, \<open>||\<close> 5, \<open>&&\<close> 10, the comparisons 15, \<open>+\<close>
  and \<open>-\<close> 20, \<open>*\<close>, \<open>/\<close> and \<open>%\<close> 25. The node built for an operator is an \<open>Assign\<close>
  when the operator is \<open>=\<close> and a \<open>BinaryExpr\<close> otherwise.

  For every expression: when \<open>discrete\<close> reads a first operand, the token stream then holds
  any number of pairs of an operator of the table and an operand that \<open>discrete\<close> reads, and
  the lookahead after them is the end of the input or a token that is neither an operator of
  the table nor \<open>(\<close>, then \<open>expression\<close> returns, at some nesting and every deeper one,
  the node of the shape \<open>nest\<close> computes from the operands and operators, and leaves that
  lookahead unread. The shape holds the operands and operators in source order and is nested
  by the binding powers; by \<open>shape_nested_unique\<close> it is the only shape that is.

  For every chain of leaf operands and operators of the table that the token stream hands
  out up to its end, of any length, the tree returned holds the tokens of the chain in
  source order and is nested by the binding powers. For three operands that tree is written
  out. In particular \<open>1 + 2 * 3\<close> parses to \<open>+(1, *(2, 3))\<close>, \<open>a = b + 1\<close> to the
  assignment of \<open>+(b, 1)\<close> to \<open>a\<close>, \<open>a - b * c - d\<close> to \<open>-(-(a, *(b, c)), d)\<close> and
  \<open>(a + b) * c\<close> to \<open>*(+(a, b), c)\<close>; the tree \<open>-(a, -(*(b, c), d))\<close> is not nested by
  the binding powers.
\<close>

theorem resolveOperatorBindings_binding_powers:
  "(PRECEDENCE (SV ''='') = Some 1 \<and> PRECEDENCE (SV ''||'') = Some 5 \<and>
    PRECEDENCE (SV ''&&'') = Some 10 \<and>
    PRECEDENCE (SV ''<'') = Some 15 \<and> PRECEDENCE (SV ''>'') = Some 15 \<and>
    PRECEDENCE (SV ''<='') = Some 15 \<and> PRECEDENCE (SV ''>='') = Some 15 \<and>
    PRECEDENCE (SV ''=='') = Some 15 \<and> PRECEDENCE (SV ''!='') = Some 15 \<and>
    PRECEDENCE (SV ''+'') = Some 20 \<and> PRECEDENCE (SV ''-'') = Some 20 \<and>
    PRECEDENCE (SV ''*'') = Some 25 \<and> PRECEDENCE (SV ''/'') = Some 25 \<and>
    PRECEDENCE (SV ''%'') = Some 25) \<and>
   Nodes_binaryExpression opr l r =
     (if opr = SV ''='' then Assign opr l r else BinaryExpression opr l r) \<and>
   (discrete (Parsicle n) S = Some (Return d0 S0) \<and> reads n S0 ps t \<and>
    list_all has_power ps \<and> stops t \<and> \<not> isPunc t (Some ''('') \<longrightarrow>
      (\<exists>m S'.
         (\<forall>j. expression (Parsicle (m + j)) S =
                Some (Return (shape_node (nest d0 ps)) S')) \<and>
         Luthor_peek S' = Return t S') \<and>
      items (nest d0 ps) = Opd d0 # pair_items ps \<and> shape_nested (nest d0 ps)) \<and>
   (yields M (x # ops_tokens rest) \<and> leaf_token x \<and> list_all recognized rest \<longrightarrow>
      (\<exists>n' tree.
         (\<forall>j. outcome (expression (Parsicle (n' + j)) M) = Some (Inr tree)) \<and>
         flatten tree = x # ops_tokens rest \<and> nested tree)) \<and>
   (yields L [a, Token Op (SV o1), b, Token Op (SV o2), c] \<and>
    leaf_token a \<and> leaf_token b \<and> leaf_token c \<and>
    PRECEDENCE (SV o1) = Some p1 \<and> PRECEDENCE (SV o2) = Some p2 \<longrightarrow>
      outcome (expression (Parsicle (7 + k)) L) =
        Some (Inr (if p1 < p2
                   then Nodes_binaryExpression (SV o1) (Leaf a)
                          (Nodes_binaryExpression (SV o2) (Leaf b) (Leaf c))
                   else Nodes_binaryExpression (SV o2)
                          (Nodes_binaryExpression (SV o1) (Leaf a) (Leaf b)) (Leaf c)))) \<and>
   Parsicle_parse (8 + k) ''1 + 2 * 3'' =
     Some (Inr [BinaryExpression (SV ''+'') (Leaf (Token Num (NV 1)))
                 (BinaryExpression (SV ''*'') (Leaf (Token Num (NV 2)))
                    (Leaf (Token Num (NV 3))))]) \<and>
   Parsicle_parse (8 + k) ''a = b + 1'' =
     Some (Inr [Assign (SV ''='') (Leaf (Token Id (SV ''a'')))
                 (BinaryExpression (SV ''+'') (Leaf (Token Id (SV ''b'')))
                    (Leaf (Token Num (NV 1))))]) \<and>
   Parsicle_parse (8 + k) ''a - b * c - d'' =
     Some (Inr [BinaryExpression (SV ''-'')
                 (BinaryExpression (SV ''-'') (Leaf (Token Id (SV ''a'')))
                    (BinaryExpression (SV ''*'') (Leaf (Token Id (SV ''b'')))
                       (Leaf (Token Id (SV ''c'')))))
                 (Leaf (Token Id (SV ''d'')))]) \<and>
   Parsicle_parse (8 + k) ''(a + b) * c'' =
     Some (Inr [BinaryExpression (SV ''*'')
                 (BinaryExpression (SV ''+'') (Leaf (Token Id (SV ''a'')))
                    (Leaf (Token Id (SV ''b''))))
                 (Leaf (Token Id (SV ''c'')))]) \<and>
   \<not> nested (BinaryExpression (SV ''-'') (Leaf (Token Id (SV ''a'')))
               (BinaryExpression (SV ''-'')
                  (BinaryExpression (SV ''*'') (Leaf (Token Id (SV ''b'')))
                     (Leaf (Token Id (SV ''c''))))
                  (Leaf (Token Id (SV ''d'')))))"
proof -
  have table:
    "PRECEDENCE (SV ''='') = Some 1 \<and> PRECEDENCE (SV ''||'') = Some 5 \<and>
    PRECEDENCE (SV ''&&'') = Some 10 \<and>
    PRECEDENCE (SV ''<'') = Some 15 \<and> PRECEDENCE (SV ''>'') = Some 15 \<and>
    PRECEDENCE (SV ''<='') = Some 15 \<and> PRECEDENCE (SV ''>='') = Some 15 \<and>
    PRECEDENCE (SV ''=='') = Some 15 \<and> PRECEDENCE (SV ''!='') = Some 15 \<and>
    PRECEDENCE (SV ''+'') = Some 20 \<and> PRECEDENCE (SV ''-'') = Some 20 \<and>
    PRECEDENCE (SV ''*'') = Some 25 \<and> PRECEDENCE (SV ''/'') = Some 25 \<and>
    PRECEDENCE (SV ''%'') = Some 25"
    by (simp add: PRECEDENCE_def PRECEDENCE_table_def)
  have kind: "Nodes_binaryExpression opr l r =
     (if opr = SV ''='' then Assign opr l r else BinaryExpression opr l r)"
    by (auto simp: Nodes_binaryExpression_def)
  have "Parsicle_parse (8) ''1 + 2 * 3'' =
     Some (Inr [BinaryExpression (SV ''+'') (Leaf (Token Num (NV 1)))
                 (BinaryExpression (SV ''*'') (Leaf (Token Num (NV 2)))
                    (Leaf (Token Num (NV 3))))])"
    by (simp add: lex_eval parse_eval del: One_nat_def cong: andThen_weak_cong rbind_weak_cong)
  then have ex1: "Parsicle_parse (8 + k) ''1 + 2 * 3'' =
     Some (Inr [BinaryExpression (SV ''+'') (Leaf (Token Num (NV 1)))
                 (BinaryExpression (SV ''*'') (Leaf (Token Num (NV 2)))
                    (Leaf (Token Num (NV 3))))])"
    by (rule Parsicle_parse_mono)
  have "Parsicle_parse (8) ''a = b + 1'' =
     Some (Inr [Assign (SV ''='') (Leaf (Token Id (SV ''a'')))
                 (BinaryExpression (SV ''+'') (Leaf (Token Id (SV ''b'')))
                    (Leaf (Token Num (NV 1))))])"
    by (simp add: lex_eval parse_eval del: One_nat_def cong: andThen_weak_cong rbind_weak_cong)
  then have ex2: "Parsicle_parse (8 + k) ''a = b + 1'' =
     Some (Inr [Assign (SV ''='') (Leaf (Token Id (SV ''a'')))
                 (BinaryExpression (SV ''+'') (Leaf (Token Id (SV ''b'')))
                    (Leaf (Token Num (NV 1))))])"
    by (rule Parsicle_parse_mono)
  have "Parsicle_parse (8) ''a - b * c - d'' =
     Some (Inr [BinaryExpression (SV ''-'')
                 (BinaryExpression (SV ''-'') (Leaf (Token Id (SV ''a'')))
                    (BinaryExpression (SV ''*'') (Leaf (Token Id (SV ''b'')))
                       (Leaf (Token Id (SV ''c'')))))
                 (Leaf (Token Id (SV ''d'')))])"
    by (simp add: lex_eval parse_eval del: One_nat_def cong: andThen_weak_cong rbind_weak_cong)
  then have ex3: "Parsicle_parse (8 + k) ''a - b * c - d'' =
     Some (Inr [BinaryExpression (SV ''-'')
                 (BinaryExpression (SV ''-'') (Leaf (Token Id (SV ''a'')))
                    (BinaryExpression (SV ''*'') (Leaf (Token Id (SV ''b'')))
                       (Leaf (Token Id (SV ''c'')))))
                 (Leaf (Token Id (SV ''d'')))])"
    by (rule Parsicle_parse_mono)
  have "Parsicle_parse (8) ''(a + b) * c'' =
     Some (Inr [BinaryExpression (SV ''*'')
                 (BinaryExpression (SV ''+'') (Leaf (Token Id (SV ''a'')))
                    (Leaf (Token Id (SV ''b''))))
                 (Leaf (Token Id (SV ''c'')))])"
    by (simp add: lex_eval parse_eval del: One_nat_def cong: andThen_weak_cong rbind_weak_cong)
  then have ex4: "Parsicle_parse (8 + k) ''(a + b) * c'' =
     Some (Inr [BinaryExpression (SV ''*'')
                 (BinaryExpression (SV ''+'') (Leaf (Token Id (SV ''a'')))
                    (Leaf (Token Id (SV ''b''))))
                 (Leaf (Token Id (SV ''c'')))])"
    by (rule Parsicle_parse_mono)
  have wrong: "\<not> nested (BinaryExpression (SV ''-'') (Leaf (Token Id (SV ''a'')))
               (BinaryExpression (SV ''-'')
                  (BinaryExpression (SV ''*'') (Leaf (Token Id (SV ''b'')))
                     (Leaf (Token Id (SV ''c''))))
                  (Leaf (Token Id (SV ''d'')))))"
    by (simp add: binds_def PRECEDENCE_def PRECEDENCE_table_def)
  have general: "discrete (Parsicle n) S = Some (Return d0 S0) \<and> reads n S0 ps t \<and>
    list_all has_power ps \<and> stops t \<and> \<not> isPunc t (Some ''('') \<longrightarrow>
      (\<exists>m S'.
         (\<forall>j. expression (Parsicle (m + j)) S =
                Some (Return (shape_node (nest d0 ps)) S')) \<and>
         Luthor_peek S' = Return t S') \<and>
      items (nest d0 ps) = Opd d0 # pair_items ps \<and> shape_nested (nest d0 ps)"
    using expression_nest [of n S d0 S0 ps t] items_nest [of d0 ps] shape_nested_nest [of ps d0]
    by blast
  have chain: "yields M (x # ops_tokens rest) \<and> leaf_token x \<and> list_all recognized rest \<longrightarrow>
      (\<exists>n' tree.
         (\<forall>j. outcome (expression (Parsicle (n' + j)) M) = Some (Inr tree)) \<and>
         flatten tree = x # ops_tokens rest \<and> nested tree)"
    using expression_chain [of M x rest] by blast
  have three: "yields L [a, Token Op (SV o1), b, Token Op (SV o2), c] \<and>
    leaf_token a \<and> leaf_token b \<and> leaf_token c \<and>
    PRECEDENCE (SV o1) = Some p1 \<and> PRECEDENCE (SV o2) = Some p2 \<longrightarrow>
      outcome (expression (Parsicle (7 + k)) L) =
        Some (Inr (if p1 < p2
                   then Nodes_binaryExpression (SV o1) (Leaf a)
                          (Nodes_binaryExpression (SV o2) (Leaf b) (Leaf c))
                   else Nodes_binaryExpression (SV o2)
                          (Nodes_binaryExpression (SV o1) (Leaf a) (Leaf b)) (Leaf c)))"
    using three_operands [of L a o1 b o2 c p1 p2 k] by blast
  show ?thesis
    by (rule conjI [OF table], rule conjI [OF kind], rule conjI [OF general],
        rule conjI [OF chain], rule conjI [OF three], rule conjI [OF ex1],
        rule conjI [OF ex2], rule conjI [OF ex3], rule conjI [OF ex4], rule wrong)
qed

text \<open>
  The token stream of \<open>(a + b) * c - d; e\<close>, whose first operand is the parenthesised sum
  and whose lookahead after the chain is the \<open>;\<close>; the token streams of \<open>a - b * c - d\<close>,
  a chain of three pairs, and of \<open>x - 2 * y\<close>.
\<close>

theorem resolveOperatorBindings_binding_powers_witness:
  "discrete (Parsicle 5) (new_Luthor (new_CharStream ''(a + b) * c - d; e'')) =
     Some (Return
             (BinaryExpression (SV ''+'') (Leaf (Token Id (SV ''a'')))
                (Leaf (Token Id (SV ''b''))))
             \<lparr>current = Some (Token Op (SV ''*'')),
                stream = \<lparr>input = ''(a + b) * c - d; e'', pos = 9, line = 1, col = 9\<rparr>\<rparr>) \<and>
   reads 5
     \<lparr>current = Some (Token Op (SV ''*'')),
        stream = \<lparr>input = ''(a + b) * c - d; e'', pos = 9, line = 1, col = 9\<rparr>\<rparr>
     [(SV ''*'', Leaf (Token Id (SV ''c''))), (SV ''-'', Leaf (Token Id (SV ''d'')))]
     (Some (Token Punc (SV '';''))) \<and>
   list_all has_power
     [(SV ''*'', Leaf (Token Id (SV ''c''))), (SV ''-'', Leaf (Token Id (SV ''d'')))] \<and>
   stops (Some (Token Punc (SV '';''))) \<and>
   \<not> isPunc (Some (Token Punc (SV '';''))) (Some ''('') \<and>
   (\<exists>m S'.
      (\<forall>j. expression (Parsicle (m + j))
               (new_Luthor (new_CharStream ''(a + b) * c - d; e'')) =
             Some (Return
                     (BinaryExpression (SV ''-'')
                        (BinaryExpression (SV ''*'')
                           (BinaryExpression (SV ''+'') (Leaf (Token Id (SV ''a'')))
                              (Leaf (Token Id (SV ''b''))))
                           (Leaf (Token Id (SV ''c''))))
                        (Leaf (Token Id (SV ''d''))))
                     S')) \<and>
      Luthor_peek S' = Return (Some (Token Punc (SV '';''))) S') \<and>
   yields (new_Luthor (new_CharStream ''a - b * c - d''))
     (Token Id (SV ''a'') #
      ops_tokens [(''-'', Token Id (SV ''b'')), (''*'', Token Id (SV ''c'')),
                  (''-'', Token Id (SV ''d''))]) \<and>
   leaf_token (Token Id (SV ''a'')) \<and>
   list_all recognized [(''-'', Token Id (SV ''b'')), (''*'', Token Id (SV ''c'')),
                        (''-'', Token Id (SV ''d''))] \<and>
   (\<exists>n tree.
      (\<forall>j. outcome (expression (Parsicle (n + j))
               (new_Luthor (new_CharStream ''a - b * c - d''))) = Some (Inr tree)) \<and>
      flatten tree =
        Token Id (SV ''a'') #
        ops_tokens [(''-'', Token Id (SV ''b'')), (''*'', Token Id (SV ''c'')),
                    (''-'', Token Id (SV ''d''))] \<and>
      nested tree) \<and>
   yields (new_Luthor (new_CharStream ''x - 2 * y''))
     [Token Id (SV ''x''), Token Op (SV ''-''), Token Num (NV 2), Token Op (SV ''*''),
      Token Id (SV ''y'')] \<and>
   leaf_token (Token Id (SV ''x'')) \<and> leaf_token (Token Num (NV 2)) \<and>
   leaf_token (Token Id (SV ''y'')) \<and>
   PRECEDENCE (SV ''-'') = Some 20 \<and> PRECEDENCE (SV ''*'') = Some 25 \<and>
   outcome (expression (Parsicle (7 + 0)) (new_Luthor (new_CharStream ''x - 2 * y''))) =
     Some (Inr (BinaryExpression (SV ''-'') (Leaf (Token Id (SV ''x'')))
                  (BinaryExpression (SV ''*'') (Leaf (Token Num (NV 2)))
                     (Leaf (Token Id (SV ''y''))))))"
proof -
  let ?start = "new_Luthor (new_CharStream ''(a + b) * c - d; e'')"
  let ?after = "\<lparr>current = Some (Token Op (SV ''*'')),
      stream = \<lparr>input = ''(a + b) * c - d; e'', pos = 9, line = 1, col = 9\<rparr>\<rparr>"
  let ?sum = "BinaryExpression (SV ''+'') (Leaf (Token Id (SV ''a''))) (Leaf (Token Id (SV ''b'')))"
  let ?pairs = "[(SV ''*'', Leaf (Token Id (SV ''c''))), (SV ''-'', Leaf (Token Id (SV ''d'')))]"
  let ?semi = "Some (Token Punc (SV '';''))"
  have g1: "discrete (Parsicle 5) ?start = Some (Return ?sum ?after)"
    by (simp add: lex_eval parse_eval del: One_nat_def cong: andThen_weak_cong rbind_weak_cong)
  have g2: "reads 5 ?after ?pairs ?semi"
    by (simp add: lex_eval parse_eval del: One_nat_def cong: andThen_weak_cong rbind_weak_cong)
  have g3: "list_all has_power ?pairs"
    by (simp add: has_power_def PRECEDENCE_def PRECEDENCE_table_def)
  have g4: "stops ?semi"
    by (simp add: stops_def)
  have g5: "\<not> isPunc ?semi (Some ''('')"
    by (simp add: isPunc_def checkTypeAndValue_def)
  have g6: "shape_node (nest ?sum ?pairs) =
      BinaryExpression (SV ''-'')
        (BinaryExpression (SV ''*'') ?sum (Leaf (Token Id (SV ''c''))))
        (Leaf (Token Id (SV ''d'')))"
    by (simp add: nest_def PRECEDENCE_def PRECEDENCE_table_def Nodes_binaryExpression_def)
  have y4: "yields (new_Luthor (new_CharStream ''a - b * c - d''))
     (Token Id (SV ''a'') #
      ops_tokens [(''-'', Token Id (SV ''b'')), (''*'', Token Id (SV ''c'')),
                  (''-'', Token Id (SV ''d''))])"
    by (simp add: lex_eval ops_tokens_def del: One_nat_def)
  have l4: "leaf_token (Token Id (SV ''a''))"
    by (simp add: leaf_token_def)
  have r4: "list_all recognized [(''-'', Token Id (SV ''b'')), (''*'', Token Id (SV ''c'')),
                        (''-'', Token Id (SV ''d''))]"
    by (simp add: recognized_def leaf_token_def PRECEDENCE_def PRECEDENCE_table_def)
  have y: "yields (new_Luthor (new_CharStream ''x - 2 * y''))
     [Token Id (SV ''x''), Token Op (SV ''-''), Token Num (NV 2), Token Op (SV ''*''),
      Token Id (SV ''y'')]"
    by (simp add: lex_eval del: One_nat_def)
  have l: "leaf_token (Token Id (SV ''x''))" "leaf_token (Token Num (NV 2))"
    "leaf_token (Token Id (SV ''y''))"
    by (simp_all add: leaf_token_def)
  have p: "PRECEDENCE (SV ''-'') = Some 20" "PRECEDENCE (SV ''*'') = Some 25"
    by (simp_all add: PRECEDENCE_def PRECEDENCE_table_def)
  show ?thesis
    using g1 g2 g3 g4 g5 y4 l4 r4 y l p
      resolveOperatorBindings_binding_powers [where n = 5 and S = ?start and ?d0.0 = ?sum
        and ?S0.0 = ?after and ps = ?pairs and t = ?semi
        and M = "new_Luthor (new_CharStream ''a - b * c - d'')" and x = "Token Id (SV ''a'')"
        and rest = "[(''-'', Token Id (SV ''b'')), (''*'', Token Id (SV ''c'')),
          (''-'', Token Id (SV ''d''))]"
        and L = "new_Luthor (new_CharStream ''x - 2 * y'')" and a = "Token Id (SV ''x'')"
        and ?o1.0 = "''-''" and b = "Token Num (NV 2)" and ?o2.0 = "''*''"
        and c = "Token Id (SV ''y'')" and ?p1.0 = 20 and ?p2.0 = 25 and k = 0]
    by (simp add: Nodes_binaryExpression_def g6)
qed

section \<open>Documents without an expression\<close>

lemma peek_Some_drop:
  "stringPeek S = Some ch \<Longrightarrow> drop (pos S) (input S) = ch # drop (Suc (pos S)) (input S)"
  by (auto simp: stringPeek_def Cons_nth_drop_Suc split: if_splits)

lemma next_drop_tl:
  "drop (pos (snd (CharStream_next S))) (input (snd (CharStream_next S))) =
   tl (drop (pos S) (input S))"
  by (simp add: CharStream_next_def Let_def drop_Suc tl_drop)

lemma readWhile_drop:
  "drop (pos S) (input S) = cs \<Longrightarrow>
   drop (pos (snd (readWhile p str S))) (input (snd (readWhile p str S))) = dropWhile p cs"
proof (induction cs arbitrary: S str)
  case Nil
  then show ?case by (simp add: readWhile.simps [of p str S] drop_Nil_peek)
next
  case (Cons ch cs)
  have pk: "stringPeek S = Some ch" using Cons.prems by (rule drop_Cons_peek)
  have nx: "drop (pos (snd (CharStream_next S))) (input (snd (CharStream_next S))) = cs"
    using Cons.prems by (rule drop_Cons_next)
  show ?case
  proof (cases "p ch")
    case True
    with Cons.IH [OF nx, of "str @ [ch]"] pk show ?thesis
      by (simp add: readWhile.simps [of p str S])
  next
    case False
    with pk Cons.prems show ?thesis
      by (simp add: readWhile.simps [of p str S])
  qed
qed

lemma blank_dropWhile_whitespace: "blank False cs \<Longrightarrow> blank False (dropWhile isWhiteSpace cs)"
  by (induction cs) (auto simp: isWhiteSpace_def)

lemma blank_comment: "blank True cs \<Longrightarrow> blank False (tl (dropWhile isNotEOL cs))"
  by (induction cs) (auto simp: isNotEOL_def)

lemma blank_readNextToken:
  "blank False (drop (pos S) (input S)) \<Longrightarrow> \<exists>S'. readNextToken S = Return None S'"
proof (induction S rule: readNextToken.induct)
  case (1 stream)
  let ?s1 = "snd (readWhile isWhiteSpace [] stream)"
  note unfold = readNextToken.simps [of stream]
  have d1: "drop (pos ?s1) (input ?s1) = dropWhile isWhiteSpace (drop (pos stream) (input stream))"
    by (rule readWhile_drop) simp
  have b1: "blank False (drop (pos ?s1) (input ?s1))"
    using "1.prems" by (simp add: d1 blank_dropWhile_whitespace)
  show ?case
  proof (cases "stringPeek ?s1")
    case None
    then show ?thesis by (simp add: unfold Let_def)
  next
    case (Some ch)
    let ?rest = "drop (Suc (pos ?s1)) (input ?s1)"
    have dch: "drop (pos ?s1) (input ?s1) = ch # ?rest"
      using Some by (rule peek_Some_drop)
    have "\<not> isWhiteSpace ch"
      using dch d1 hd_dropWhile [of isWhiteSpace "drop (pos stream) (input stream)"] by auto
    with b1 dch have hash: "ch = CHR ''#''" and brest: "blank True ?rest"
      by (auto split: if_splits)
    let ?s2 = "skipRestOfLine ?s1"
    have "drop (pos ?s2) (input ?s2) = tl (dropWhile isNotEOL (ch # ?rest))"
      unfolding skipRestOfLine_def next_drop_tl
      using readWhile_drop [OF dch, of isNotEOL "[]"] by simp
    also have "\<dots> = tl (dropWhile isNotEOL ?rest)"
      using hash by (simp add: isNotEOL_def)
    finally have "blank False (drop (pos ?s2) (input ?s2))"
      using brest by (simp add: blank_comment)
    from "1.IH" [OF refl Some _ this] hash obtain S' where
      "readNextToken ?s2 = Return None S'"
      by (auto simp: isComment_def)
    with Some hash show ?thesis
      by (simp add: unfold Let_def isComment_def)
  qed
qed

lemma parse_at_end_TypeError:
  assumes "Luthor_peek L = Return None L1"
  shows "parse (Suc (Suc k)) L = Some (Throw TypeError)"
proof -
  have "discrete P L = Some (Throw TypeError)" for P
    using assms
    by (simp add: discrete_def andThen_simps isPunc_def isKw_def isOp_def checkTypeAndValue_def
        isOneOfType_def)
  then show ?thesis
    by (simp add: parse_def expression_def Parsicle_calls andThen_simps)
qed

text \<open>
  Claim C5. A document of whitespace and comments only is to give an empty sequence, or at
  worst a syntax error. The code gives neither, for any such document, the empty one
  included: at the end of input \<open>peek()\<close> is \<open>null\<close>, \<open>discrete\<close> hands it to
  \<open>isOneOfType\<close>, and reading \<open>token.type\<close> raises JavaScript's \<open>TypeError\<close>.
\<close>

theorem parse_blank_document_TypeError:
  assumes "blank False content"
  shows "Parsicle_parse (2 + k) content = Some (Inl TypeError)"
proof -
  let ?L = "new_Luthor (new_CharStream content)"
  from assms obtain S' where "readNextToken (new_CharStream content) = Return None S'"
    using blank_readNextToken [of "new_CharStream content"] by (auto simp: new_CharStream_def)
  then have "Luthor_peek ?L = Return None (?L\<lparr>current := None, stream := S'\<rparr>)"
    by (simp add: Luthor_peek_def new_Luthor_def)
  then have "parse (Suc (Suc k)) ?L = Some (Throw TypeError)"
    by (rule parse_at_end_TypeError)
  then show ?thesis
    by (simp add: Parsicle_parse_def outcome_def)
qed

text \<open>The empty document, and one that holds a comment line.\<close>

theorem parse_blank_document_TypeError_witness:
  "blank False [] \<and> Parsicle_parse (2 + 0) [] = Some (Inl TypeError) \<and>
   blank False ('' # only a comment'' @ [CHR 0x0A, CHR 0x09]) \<and>
   Parsicle_parse (2 + 0) ('' # only a comment'' @ [CHR 0x0A, CHR 0x09]) = Some (Inl TypeError)"
proof -
  have a: "blank False []" by simp
  have b: "blank False ('' # only a comment'' @ [CHR 0x0A, CHR 0x09])"
    by (simp add: isWhiteSpace_def)
  show ?thesis
    using a b parse_blank_document_TypeError [OF a, of 0]
      parse_blank_document_TypeError [OF b, of 0]
    by simp
qed

end
